theory Spec2Isabelle
  imports Main "HOL-Library.Word"
begin

section \<open>Memory, C ints and the two compressed formats\<close>

text \<open>
  The program is C. An \<^verbatim>\<open>int *\<close> of the source points to an array of ints; the
  model keeps every such array as one block of a memory, and a pointer is the number of
  its block. Blocks are only ever added (the functions below never free), so a block
  that exists keeps its number.

  A cell holds an integer. The arithmetic of the source is the arithmetic of a 32-bit
  \<^verbatim>\<open>int\<close>, and the model wraps around where the source can overflow:
  \<^item> the sizes \<^verbatim>\<open>z_rows * z_cols\<close> and \<^verbatim>\<open>z_rows + 1\<close> of the arrays, the counts
    \<^verbatim>\<open>z_val_count\<close> and \<^verbatim>\<open>cur_row_val_count\<close> and the sums stored in \<^verbatim>\<open>z_row_ptr\<close> go
    through \<open>int32\<close>;
  \<^item> an entry read from a cell is taken as \<^typ>\<open>32 word\<close>, sums and products of entries
    wrap around, and a stored entry is the signed reading of the word;
  \<^item> a cursor or a loop counter is incremented only after the test that it is less than
    a bound, which is an \<^verbatim>\<open>int\<close> read from an array or a dimension, so that increment
    cannot overflow and is written \<open>+ 1\<close>.

  C does not stop a read or a write outside an array. The model does what the machine
  does: such a read yields whatever lies there (the field \<open>stray\<close> of the memory, about
  which nothing is assumed), such a write is dropped, and both are recorded as a
  \<open>fault\<close> in the log that every function returns next to its value.
\<close>

type_synonym cint = "32 word"

text \<open>The value of an integer as a 32-bit two's complement \<^verbatim>\<open>int\<close>.\<close>

definition int32 :: "int \<Rightarrow> int" where
  "int32 n = (n + 2147483648) mod 4294967296 - 2147483648"

datatype place = Heap nat | Z_val | Z_col_ind | Z_row_ptr

datatype fault = Bad_read place int | Bad_write place int

record memory =
  blocks :: "int list list"
  stray :: "place \<Rightarrow> int \<Rightarrow> int"

datatype error = DimensionMismatch | AllocationFailure | InvalidIndex | NegativeArrayBound

text \<open>\<^verbatim>\<open>struct CSR_Matrix\<close>: three array pointers and the two dimensions.\<close>

record CSR_Matrix =
  val :: nat
  col_ind :: nat
  row_ptr :: nat
  num_rows :: int
  num_cols :: int

text \<open>\<^verbatim>\<open>struct CCS_Matrix\<close>: the same in column-major order.\<close>

record CCS_Matrix =
  val :: nat
  row_ind :: nat
  col_ptr :: nat
  num_rows :: int
  num_cols :: int

text \<open>Reading \<^verbatim>\<open>p[i]\<close> from memory.\<close>

definition rd :: "memory \<Rightarrow> nat \<Rightarrow> int \<Rightarrow> int \<times> fault list" where
  "rd m p i =
     (if p < length (blocks m) \<and> 0 \<le> i \<and> i < int (length (blocks m ! p))
      then (blocks m ! p ! nat i, [])
      else (stray m (Heap p) i, [Bad_read (Heap p) i]))"

text \<open>Writing \<^verbatim>\<open>p[i] = v\<close> to memory.\<close>

definition wr :: "memory \<Rightarrow> nat \<Rightarrow> int \<Rightarrow> int \<Rightarrow> memory \<times> fault list" where
  "wr m p i v =
     (if p < length (blocks m) \<and> 0 \<le> i \<and> i < int (length (blocks m ! p))
      then (m\<lparr>blocks := (blocks m)[p := (blocks m ! p)[nat i := v]]\<rparr>, [])
      else (m, [Bad_write (Heap p) i]))"

text \<open>
  The variable-length arrays \<^verbatim>\<open>z_val\<close>, \<^verbatim>\<open>z_col_ind\<close> and \<^verbatim>\<open>z_row_ptr\<close> live on
  the stack of the call. They are lists of the model, named by their \<open>place\<close>; a fresh
  one holds unspecified cells. An array of no cells is allowed, as the common compilers
  allow it.
\<close>

definition vla :: "memory \<Rightarrow> place \<Rightarrow> int \<Rightarrow> int list" where
  "vla m pl n = map (\<lambda>k. stray m pl (int k)) [0..<nat n]"

definition rd_local :: "memory \<Rightarrow> place \<Rightarrow> int list \<Rightarrow> int \<Rightarrow> int \<times> fault list" where
  "rd_local m pl xs i =
     (if 0 \<le> i \<and> i < int (length xs) then (xs ! nat i, [])
      else (stray m pl i, [Bad_read pl i]))"

definition wr_local :: "place \<Rightarrow> int list \<Rightarrow> int \<Rightarrow> int \<Rightarrow> int list \<times> fault list" where
  "wr_local pl xs i v =
     (if 0 \<le> i \<and> i < int (length xs) then (xs[nat i := v], [])
      else (xs, [Bad_write pl i]))"

record scratch =
  z_val :: "int list"
  z_col_ind :: "int list"
  z_row_ptr :: "int list"
  z_val_count :: int

section \<open>The source functions\<close>

subsection \<open>\<^verbatim>\<open>Malloc\<close> and \<^verbatim>\<open>init_CSR_matrix\<close>\<close>

text \<open>
  \<^verbatim>\<open>Malloc\<close> exits when \<^verbatim>\<open>malloc\<close> returns \<^verbatim>\<open>NULL\<close>. The argument is a number of
  ints here; a negative one is a huge \<^verbatim>\<open>size_t\<close> in C, which no \<^verbatim>\<open>malloc\<close> serves.
  Otherwise the memory is taken to be large enough, and a request for no cells is served
  (as by glibc). The new block gets the next number and unspecified cells.
\<close>

definition Malloc :: "memory \<Rightarrow> int \<Rightarrow> error + (nat \<times> memory)" where
  "Malloc m n =
     (if n < 0 then Inl AllocationFailure
      else Inr (length (blocks m),
                m\<lparr>blocks := blocks m @ [vla m (Heap (length (blocks m))) n]\<rparr>))"

text \<open>
  \<^verbatim>\<open>init_CSR_matrix\<close>. The struct itself is the record that is returned; its three
  arrays are allocated in the order of the source. \<^verbatim>\<open>num_rows + 1\<close> is computed in
  \<^verbatim>\<open>int\<close> before it becomes a size.
\<close>

definition init_CSR_matrix ::
  "memory \<Rightarrow> int \<Rightarrow> int \<Rightarrow> int \<Rightarrow> error + (CSR_Matrix \<times> memory)" where
  "init_CSR_matrix m num_val n_rows n_cols =
     (case Malloc m num_val of Inl e \<Rightarrow> Inl e | Inr (v, m1) \<Rightarrow>
      case Malloc m1 num_val of Inl e \<Rightarrow> Inl e | Inr (c, m2) \<Rightarrow>
      case Malloc m2 (int32 (n_rows + 1)) of Inl e \<Rightarrow> Inl e | Inr (r, m3) \<Rightarrow>
      Inr (\<lparr>CSR_Matrix.val = v, col_ind = c, row_ptr = r,
            num_rows = n_rows, num_cols = n_cols\<rparr>, m3))"

subsection \<open>The loops of \<^verbatim>\<open>sparse_matrix_multiply\<close>\<close>

text \<open>
  The cursor loop
  \<^verbatim>\<open>while (Y->row_ind[y_row] < X->col_ind[x_col] && y_row < Y->col_ptr[cur_z_col + 1]) y_row++;\<close>
  The left operand of \<^verbatim>\<open>&&\<close> is evaluated first, so \<^verbatim>\<open>Y->row_ind[y_row]\<close> is read
  before \<^verbatim>\<open>y_row\<close> is compared with the end of the column.
\<close>

function advance ::
  "memory \<Rightarrow> CSR_Matrix \<Rightarrow> CCS_Matrix \<Rightarrow> int \<Rightarrow> int \<Rightarrow> int \<Rightarrow> int \<times> fault list" where
  "advance m X Y cur_z_col x_col y_row =
     (case rd m (row_ind Y) y_row of (r, f1) \<Rightarrow>
      case rd m (col_ind X) x_col of (c, f2) \<Rightarrow>
      if r < c then
        (case rd m (col_ptr Y) (cur_z_col + 1) of (e, f3) \<Rightarrow>
         if y_row < e then
           (case advance m X Y cur_z_col x_col (y_row + 1) of
              (y', fs) \<Rightarrow> (y', f1 @ f2 @ f3 @ fs))
         else (y_row, f1 @ f2 @ f3))
      else (y_row, f1 @ f2))"
  by pat_completeness auto
termination
  by (relation "measure (\<lambda>(m, X, Y, cur_z_col, x_col, y_row).
        nat (fst (rd m (col_ptr Y) (cur_z_col + 1)) - y_row))")
     (auto simp: fst_def split: prod.splits)

text \<open>
  The loop over the entries of row \<open>cur_z_row\<close> of \<open>X\<close>, from \<open>x_col\<close> on, with the
  cursor \<open>y_row\<close> into column \<open>cur_z_col\<close> of \<open>Y\<close> and the sum so far.
\<close>

function dot_loop ::
  "memory \<Rightarrow> CSR_Matrix \<Rightarrow> CCS_Matrix \<Rightarrow> int \<Rightarrow> int \<Rightarrow> int \<Rightarrow> int \<Rightarrow> cint
     \<Rightarrow> cint \<times> fault list" where
  "dot_loop m X Y cur_z_row cur_z_col x_col y_row dot_product =
     (case rd m (row_ptr X) (cur_z_row + 1) of (hi, f1) \<Rightarrow>
      if x_col < hi then
        (case advance m X Y cur_z_col x_col y_row of (y', f2) \<Rightarrow>
         case rd m (col_ptr Y) (cur_z_col + 1) of (e, f3) \<Rightarrow>
         if y' \<ge> e then (dot_product, f1 @ f2 @ f3)
         else
           (case rd m (row_ind Y) y' of (r, f4) \<Rightarrow>
            case rd m (col_ind X) x_col of (c, f5) \<Rightarrow>
            if r = c then
              (case rd m (CSR_Matrix.val X) x_col of (xv, f6) \<Rightarrow>
               case rd m (CCS_Matrix.val Y) y' of (yv, f7) \<Rightarrow>
               case dot_loop m X Y cur_z_row cur_z_col (x_col + 1) y'
                      (dot_product + word_of_int xv * word_of_int yv) of
                 (d, fs) \<Rightarrow> (d, f1 @ f2 @ f3 @ f4 @ f5 @ f6 @ f7 @ fs))
            else
              (case dot_loop m X Y cur_z_row cur_z_col (x_col + 1) y' dot_product of
                 (d, fs) \<Rightarrow> (d, f1 @ f2 @ f3 @ f4 @ f5 @ fs))))
      else (dot_product, f1))"
  by pat_completeness auto
termination
proof (relation "measure (\<lambda>(m, X, Y, cur_z_row, cur_z_col, x_col, y_row, d).
        nat (fst (rd m (row_ptr X) (cur_z_row + 1)) - x_col))", goal_cases)
  case 1
  show ?case by simp
next
  case (2 m X Y cur_z_row cur_z_col x_col y_row d hi f1)
  from 2(2) show ?case by (simp add: 2(1)[symmetric])
next
  case (3 m X Y cur_z_row cur_z_col x_col y_row d hi f1)
  from 3(2) show ?case by (simp add: 3(1)[symmetric])
qed

text \<open>
  The loop over the columns of the output, from \<open>cur_z_col\<close> on: it returns the
  scratch arrays, \<^verbatim>\<open>cur_row_val_count\<close> and the faults.
\<close>

function cols_loop ::
  "memory \<Rightarrow> CSR_Matrix \<Rightarrow> CCS_Matrix \<Rightarrow> int \<Rightarrow> int \<Rightarrow> int \<Rightarrow> scratch \<Rightarrow> int
     \<Rightarrow> scratch \<times> int \<times> fault list" where
  "cols_loop m X Y z_cols cur_z_row cur_z_col s cur_row_val_count =
     (if cur_z_col < z_cols then
        (case rd m (col_ptr Y) cur_z_col of (y_row, f1) \<Rightarrow>
         case rd m (row_ptr X) cur_z_row of (x_col, f2) \<Rightarrow>
         case dot_loop m X Y cur_z_row cur_z_col x_col y_row 0 of (dot_product, f3) \<Rightarrow>
         if dot_product \<noteq> 0 then
           (case wr_local Z_val (z_val s) (z_val_count s) (sint dot_product) of (zv, f4) \<Rightarrow>
            case wr_local Z_col_ind (z_col_ind s) (z_val_count s) cur_z_col of (zc, f5) \<Rightarrow>
            case cols_loop m X Y z_cols cur_z_row (cur_z_col + 1)
                   (s\<lparr>z_val := zv, z_col_ind := zc,
                      z_val_count := int32 (z_val_count s + 1)\<rparr>)
                   (int32 (cur_row_val_count + 1)) of
              (s', n, fs) \<Rightarrow> (s', n, f1 @ f2 @ f3 @ f4 @ f5 @ fs))
         else
           (case cols_loop m X Y z_cols cur_z_row (cur_z_col + 1) s cur_row_val_count of
              (s', n, fs) \<Rightarrow> (s', n, f1 @ f2 @ f3 @ fs)))
      else (s, cur_row_val_count, []))"
  by pat_completeness auto
termination
  by (relation "measure (\<lambda>(m, X, Y, z_cols, cur_z_row, cur_z_col, s, n).
        nat (z_cols - cur_z_col))") auto

text \<open>The loop over the rows of the output, from \<open>cur_z_row\<close> on.\<close>

function rows_loop ::
  "memory \<Rightarrow> CSR_Matrix \<Rightarrow> CCS_Matrix \<Rightarrow> int \<Rightarrow> int \<Rightarrow> int \<Rightarrow> scratch
     \<Rightarrow> scratch \<times> fault list" where
  "rows_loop m X Y z_rows z_cols cur_z_row s =
     (if cur_z_row < z_rows then
        (case cols_loop m X Y z_cols cur_z_row 0 s 0 of (s1, cur_row_val_count, f1) \<Rightarrow>
         case rd_local m Z_row_ptr (z_row_ptr s1) cur_z_row of (p, f2) \<Rightarrow>
         case wr_local Z_row_ptr (z_row_ptr s1) (cur_z_row + 1)
                (int32 (p + cur_row_val_count)) of
           (zr, f3) \<Rightarrow>
         case rows_loop m X Y z_rows z_cols (cur_z_row + 1) (s1\<lparr>z_row_ptr := zr\<rparr>) of
           (s', fs) \<Rightarrow> (s', f1 @ f2 @ f3 @ fs))
      else (s, []))"
  by pat_completeness auto
termination
  by (relation "measure (\<lambda>(m, X, Y, z_rows, z_cols, cur_z_row, s).
        nat (z_rows - cur_z_row))") auto

text \<open>
  The first phase of \<^verbatim>\<open>sparse_matrix_multiply\<close>: the three arrays on the stack,
  \<^verbatim>\<open>z_row_ptr[0] = 0\<close>, and the two nested loops. The sizes of the arrays are computed
  in \<^verbatim>\<open>int\<close>. An array on the stack with a negative bound moves the stack pointer the
  wrong way and the call does not come back: the model ends it with
  \<open>NegativeArrayBound\<close>. A size that wraps around to a number that is not negative gives
  arrays of that many cells.
\<close>

definition multiply_scratch ::
  "memory \<Rightarrow> CSR_Matrix \<Rightarrow> CCS_Matrix \<Rightarrow> error + (scratch \<times> fault list)" where
  "multiply_scratch m X Y =
     (let z_rows = CSR_Matrix.num_rows X;
          z_cols = CCS_Matrix.num_cols Y
      in if int32 (z_rows * z_cols) < 0 \<or> int32 (z_rows + 1) < 0 then Inl NegativeArrayBound
         else
           (let s0 = \<lparr>z_val = vla m Z_val (int32 (z_rows * z_cols)),
                      z_col_ind = vla m Z_col_ind (int32 (z_rows * z_cols)),
                      z_row_ptr = vla m Z_row_ptr (int32 (z_rows + 1)),
                      z_val_count = 0\<rparr>
            in case wr_local Z_row_ptr (z_row_ptr s0) 0 0 of (zr, f0) \<Rightarrow>
               case rows_loop m X Y z_rows z_cols 0 (s0\<lparr>z_row_ptr := zr\<rparr>) of
                 (s, fs) \<Rightarrow> Inr (s, f0 @ fs)))"

text \<open>
  The two loops that fill the matrix:
  \<^verbatim>\<open>for (i = 0; i < z_val_count; i++) { Z->val[i] = z_val[i]; Z->col_ind[i] = z_col_ind[i]; }\<close>
  and \<^verbatim>\<open>for (i = 0; i < z_rows + 1; i++) Z->row_ptr[i] = z_row_ptr[i];\<close>
  with \<^verbatim>\<open>z_rows + 1\<close> computed in \<^verbatim>\<open>int\<close>.
\<close>

function fill_val :: "memory \<Rightarrow> CSR_Matrix \<Rightarrow> scratch \<Rightarrow> int \<Rightarrow> memory \<times> fault list" where
  "fill_val m Z s i =
     (if i < z_val_count s then
        (case rd_local m Z_val (z_val s) i of (v, f1) \<Rightarrow>
         case wr m (CSR_Matrix.val Z) i v of (m1, f2) \<Rightarrow>
         case rd_local m1 Z_col_ind (z_col_ind s) i of (c, f3) \<Rightarrow>
         case wr m1 (col_ind Z) i c of (m2, f4) \<Rightarrow>
         case fill_val m2 Z s (i + 1) of (m', fs) \<Rightarrow> (m', f1 @ f2 @ f3 @ f4 @ fs))
      else (m, []))"
  by pat_completeness auto
termination
  by (relation "measure (\<lambda>(m, Z, s, i). nat (z_val_count s - i))") auto

function fill_row_ptr ::
  "memory \<Rightarrow> CSR_Matrix \<Rightarrow> scratch \<Rightarrow> int \<Rightarrow> int \<Rightarrow> memory \<times> fault list" where
  "fill_row_ptr m Z s z_rows i =
     (if i < int32 (z_rows + 1) then
        (case rd_local m Z_row_ptr (z_row_ptr s) i of (p, f1) \<Rightarrow>
         case wr m (row_ptr Z) i p of (m1, f2) \<Rightarrow>
         case fill_row_ptr m1 Z s z_rows (i + 1) of (m', fs) \<Rightarrow> (m', f1 @ f2 @ fs))
      else (m, []))"
  by pat_completeness auto
termination
  by (relation "measure (\<lambda>(m, Z, s, z_rows, i). nat (int32 (z_rows + 1) - i))") auto

subsection \<open>\<^verbatim>\<open>sparse_matrix_multiply\<close>\<close>

text \<open>
  What a call leaves behind: the returned struct or the error the process exits with,
  the memory, and the log of accesses outside an array.
\<close>

record run =
  ret :: "error + CSR_Matrix"
  mem :: memory
  faults :: "fault list"

definition sparse_matrix_multiply :: "memory \<Rightarrow> CSR_Matrix \<Rightarrow> CCS_Matrix \<Rightarrow> run" where
  "sparse_matrix_multiply m X Y =
     (if CSR_Matrix.num_cols X \<noteq> CCS_Matrix.num_rows Y
      then \<lparr>ret = Inl DimensionMismatch, mem = m, faults = []\<rparr>
      else
        (case multiply_scratch m X Y of
           Inl e \<Rightarrow> \<lparr>ret = Inl e, mem = m, faults = []\<rparr>
         | Inr (s, f1) \<Rightarrow>
             (case init_CSR_matrix m (z_val_count s) (CSR_Matrix.num_rows X)
                     (CCS_Matrix.num_cols Y) of
                Inl e \<Rightarrow> \<lparr>ret = Inl e, mem = m, faults = f1\<rparr>
              | Inr (Z, m1) \<Rightarrow>
                  (case fill_val m1 Z s 0 of (m2, f2) \<Rightarrow>
                   case fill_row_ptr m2 Z s (CSR_Matrix.num_rows X) 0 of (m3, f3) \<Rightarrow>
                   \<lparr>ret = Inr Z, mem = m3, faults = f1 @ f2 @ f3\<rparr>))))"

subsection \<open>\<^verbatim>\<open>matrix_multiply\<close>, the dense product\<close>

text \<open>
  An \<^verbatim>\<open>int **\<close> is a list of rows here. The source assumes that every index it uses
  is valid (its comment says so); the model checks each access and returns
  \<open>InvalidIndex\<close> where the assumption fails. \<^verbatim>\<open>init_2d_array\<close> allocates the rows;
  every cell of the result is written before it is returned.
\<close>

definition at2 :: "cint list list \<Rightarrow> int \<Rightarrow> int \<Rightarrow> error + cint" where
  "at2 A i j =
     (if 0 \<le> i \<and> i < int (length A) \<and> 0 \<le> j \<and> j < int (length (A ! nat i))
      then Inr (A ! nat i ! nat j) else Inl InvalidIndex)"

definition put2 :: "cint list list \<Rightarrow> int \<Rightarrow> int \<Rightarrow> cint \<Rightarrow> error + cint list list" where
  "put2 A i j v =
     (if 0 \<le> i \<and> i < int (length A) \<and> 0 \<le> j \<and> j < int (length (A ! nat i))
      then Inr (A[nat i := (A ! nat i)[nat j := v]]) else Inl InvalidIndex)"

definition init_2d_array :: "int \<Rightarrow> int \<Rightarrow> error + cint list list" where
  "init_2d_array n_rows n_cols =
     (if n_rows < 0 \<or> (0 < n_rows \<and> n_cols < 0) then Inl AllocationFailure
      else Inr (replicate (nat n_rows) (replicate (nat n_cols) 0)))"

function dot_index_loop ::
  "cint list list \<Rightarrow> cint list list \<Rightarrow> int \<Rightarrow> int \<Rightarrow> int \<Rightarrow> int \<Rightarrow> cint \<Rightarrow> error + cint" where
  "dot_index_loop X Y x_cols cur_z_row cur_z_col dot_index dot_product =
     (if dot_index < x_cols then
        (case at2 X cur_z_row dot_index of Inl e \<Rightarrow> Inl e | Inr a \<Rightarrow>
         case at2 Y dot_index cur_z_col of Inl e \<Rightarrow> Inl e | Inr b \<Rightarrow>
         dot_index_loop X Y x_cols cur_z_row cur_z_col (dot_index + 1) (dot_product + a * b))
      else Inr dot_product)"
  by pat_completeness auto
termination
  by (relation "measure (\<lambda>(X, Y, x_cols, cur_z_row, cur_z_col, dot_index, d).
        nat (x_cols - dot_index))") auto

function dense_cols_loop ::
  "cint list list \<Rightarrow> cint list list \<Rightarrow> int \<Rightarrow> int \<Rightarrow> int \<Rightarrow> int \<Rightarrow> cint list list
     \<Rightarrow> error + cint list list" where
  "dense_cols_loop X Y x_cols z_cols cur_z_row cur_z_col Z =
     (if cur_z_col < z_cols then
        (case dot_index_loop X Y x_cols cur_z_row cur_z_col 0 0 of Inl e \<Rightarrow> Inl e
         | Inr dot_product \<Rightarrow>
         case put2 Z cur_z_row cur_z_col dot_product of Inl e \<Rightarrow> Inl e | Inr Z' \<Rightarrow>
         dense_cols_loop X Y x_cols z_cols cur_z_row (cur_z_col + 1) Z')
      else Inr Z)"
  by pat_completeness auto
termination
  by (relation "measure (\<lambda>(X, Y, x_cols, z_cols, cur_z_row, cur_z_col, Z).
        nat (z_cols - cur_z_col))") auto

function dense_rows_loop ::
  "cint list list \<Rightarrow> cint list list \<Rightarrow> int \<Rightarrow> int \<Rightarrow> int \<Rightarrow> int \<Rightarrow> cint list list
     \<Rightarrow> error + cint list list" where
  "dense_rows_loop X Y x_cols z_rows z_cols cur_z_row Z =
     (if cur_z_row < z_rows then
        (case dense_cols_loop X Y x_cols z_cols cur_z_row 0 Z of Inl e \<Rightarrow> Inl e
         | Inr Z' \<Rightarrow> dense_rows_loop X Y x_cols z_rows z_cols (cur_z_row + 1) Z')
      else Inr Z)"
  by pat_completeness auto
termination
  by (relation "measure (\<lambda>(X, Y, x_cols, z_rows, z_cols, cur_z_row, Z).
        nat (z_rows - cur_z_row))") auto

definition matrix_multiply ::
  "cint list list \<Rightarrow> cint list list \<Rightarrow> int \<Rightarrow> int \<Rightarrow> int \<Rightarrow> int \<Rightarrow> error + cint list list" where
  "matrix_multiply X Y x_rows x_cols y_rows y_cols =
     (if x_cols \<noteq> y_rows then Inl DimensionMismatch
      else
        (case init_2d_array x_rows y_cols of Inl e \<Rightarrow> Inl e
         | Inr Z \<Rightarrow> dense_rows_loop X Y x_cols x_rows y_cols 0 Z))"

text \<open>The equations of the loops are unfolded by hand, one iteration at a time.\<close>

declare advance.simps [simp del]
declare dot_loop.simps [simp del]
declare cols_loop.simps [simp del]
declare rows_loop.simps [simp del]
declare fill_val.simps [simp del]
declare fill_row_ptr.simps [simp del]
declare dot_index_loop.simps [simp del]
declare dense_cols_loop.simps [simp del]
declare dense_rows_loop.simps [simp del]

section \<open>Well-formed matrices and their dense form\<close>

text \<open>The cells \<open>a, \<dots>, b - 1\<close> of an array.\<close>

definition slice :: "'a list \<Rightarrow> int \<Rightarrow> int \<Rightarrow> 'a list" where
  "slice xs a b = drop (nat a) (take (nat b) xs)"

definition row_slice :: "memory \<Rightarrow> CSR_Matrix \<Rightarrow> int \<Rightarrow> 'a list \<Rightarrow> 'a list" where
  "row_slice m X i xs =
     slice xs (blocks m ! row_ptr X ! nat i) (blocks m ! row_ptr X ! nat (i + 1))"

definition col_slice :: "memory \<Rightarrow> CCS_Matrix \<Rightarrow> int \<Rightarrow> 'a list \<Rightarrow> 'a list" where
  "col_slice m Y j xs =
     slice xs (blocks m ! col_ptr Y ! nat j) (blocks m ! col_ptr Y ! nat (j + 1))"

text \<open>
  The invariant of a CRS matrix: the three arrays exist, \<open>row_ptr\<close> has \<open>rows + 1\<close>
  cells, starts at 0, does not decrease and ends at the number of entries, which is
  the length of both other arrays; within each row the column indices increase
  strictly; every column index lies in \<open>[0, cols)\<close>.
\<close>

definition wf_CSR :: "memory \<Rightarrow> CSR_Matrix \<Rightarrow> bool" where
  "wf_CSR m X \<longleftrightarrow>
     CSR_Matrix.val X < length (blocks m) \<and> col_ind X < length (blocks m) \<and>
     row_ptr X < length (blocks m) \<and>
     0 \<le> CSR_Matrix.num_rows X \<and> 0 \<le> CSR_Matrix.num_cols X \<and>
     int (length (blocks m ! row_ptr X)) = CSR_Matrix.num_rows X + 1 \<and>
     blocks m ! row_ptr X ! 0 = 0 \<and>
     sorted (blocks m ! row_ptr X) \<and>
     blocks m ! row_ptr X ! nat (CSR_Matrix.num_rows X)
       = int (length (blocks m ! CSR_Matrix.val X)) \<and>
     length (blocks m ! col_ind X) = length (blocks m ! CSR_Matrix.val X) \<and>
     (\<forall>i \<in> {0..<CSR_Matrix.num_rows X}.
        sorted_wrt (<) (row_slice m X i (blocks m ! col_ind X))) \<and>
     (\<forall>c \<in> set (blocks m ! col_ind X). 0 \<le> c \<and> c < CSR_Matrix.num_cols X)"

definition wf_CCS :: "memory \<Rightarrow> CCS_Matrix \<Rightarrow> bool" where
  "wf_CCS m Y \<longleftrightarrow>
     CCS_Matrix.val Y < length (blocks m) \<and> row_ind Y < length (blocks m) \<and>
     col_ptr Y < length (blocks m) \<and>
     0 \<le> CCS_Matrix.num_rows Y \<and> 0 \<le> CCS_Matrix.num_cols Y \<and>
     int (length (blocks m ! col_ptr Y)) = CCS_Matrix.num_cols Y + 1 \<and>
     blocks m ! col_ptr Y ! 0 = 0 \<and>
     sorted (blocks m ! col_ptr Y) \<and>
     blocks m ! col_ptr Y ! nat (CCS_Matrix.num_cols Y)
       = int (length (blocks m ! CCS_Matrix.val Y)) \<and>
     length (blocks m ! row_ind Y) = length (blocks m ! CCS_Matrix.val Y) \<and>
     (\<forall>j \<in> {0..<CCS_Matrix.num_cols Y}.
        sorted_wrt (<) (col_slice m Y j (blocks m ! row_ind Y))) \<and>
     (\<forall>r \<in> set (blocks m ! row_ind Y). 0 \<le> r \<and> r < CCS_Matrix.num_rows Y)"

text \<open>
  The entries of row \<open>i\<close> of a CRS matrix as pairs (column, value), and of column \<open>j\<close>
  of a CCS matrix as pairs (row, value).
\<close>

definition row_entries :: "memory \<Rightarrow> CSR_Matrix \<Rightarrow> int \<Rightarrow> (int \<times> int) list" where
  "row_entries m X i =
     row_slice m X i (zip (blocks m ! col_ind X) (blocks m ! CSR_Matrix.val X))"

definition col_entries :: "memory \<Rightarrow> CCS_Matrix \<Rightarrow> int \<Rightarrow> (int \<times> int) list" where
  "col_entries m Y j =
     col_slice m Y j (zip (blocks m ! row_ind Y) (blocks m ! CCS_Matrix.val Y))"

text \<open>The entry with a given index in such a list, as a C int; 0 where there is none.\<close>

definition entry :: "(int \<times> int) list \<Rightarrow> int \<Rightarrow> cint" where
  "entry es k = (case map_of es k of None \<Rightarrow> 0 | Some v \<Rightarrow> word_of_int v)"

text \<open>The dense form: the entry in row \<open>i\<close> and column \<open>j\<close>.\<close>

definition dense_CSR :: "memory \<Rightarrow> CSR_Matrix \<Rightarrow> int \<Rightarrow> int \<Rightarrow> cint" where
  "dense_CSR m X i j = entry (row_entries m X i) j"

definition dense_CCS :: "memory \<Rightarrow> CCS_Matrix \<Rightarrow> int \<Rightarrow> int \<Rightarrow> cint" where
  "dense_CCS m Y i j = entry (col_entries m Y j) i"

definition to_dense_CSR :: "memory \<Rightarrow> CSR_Matrix \<Rightarrow> cint list list" where
  "to_dense_CSR m X =
     map (\<lambda>i. map (\<lambda>j. dense_CSR m X i j) [0..CSR_Matrix.num_cols X - 1])
       [0..CSR_Matrix.num_rows X - 1]"

definition to_dense_CCS :: "memory \<Rightarrow> CCS_Matrix \<Rightarrow> cint list list" where
  "to_dense_CCS m Y =
     map (\<lambda>i. map (\<lambda>j. dense_CCS m Y i j) [0..CCS_Matrix.num_cols Y - 1])
       [0..CCS_Matrix.num_rows Y - 1]"

text \<open>The dense form of what a call returns; no rows where it returns no matrix.\<close>

definition dense_result :: "memory \<Rightarrow> CSR_Matrix \<Rightarrow> CCS_Matrix \<Rightarrow> cint list list" where
  "dense_result m X Y =
     (case ret (sparse_matrix_multiply m X Y) of
        Inl e \<Rightarrow> []
      | Inr Z \<Rightarrow> to_dense_CSR (mem (sparse_matrix_multiply m X Y)) Z)"

text \<open>The entries of a matrix: the pairs (row, column) at which it stores a value.\<close>

definition stored :: "memory \<Rightarrow> CSR_Matrix \<Rightarrow> int \<Rightarrow> int \<Rightarrow> bool" where
  "stored m X i j \<longleftrightarrow> j \<in> fst ` set (row_entries m X i)"

section \<open>The merge on lists of entries\<close>

text \<open>
  The co-traversal of \<^const>\<open>dot_loop\<close> read off the two lists of entries: the
  cursor into the column is the list that is left of it.
\<close>

fun merge_dot :: "(int \<times> int) list \<Rightarrow> (int \<times> int) list \<Rightarrow> cint \<Rightarrow> cint" where
  "merge_dot [] ys d = d"
| "merge_dot ((c, xv) # xs) ys d =
     (case dropWhile (\<lambda>(r, yv). r < c) ys of
        [] \<Rightarrow> d
      | (r, yv) # ys' \<Rightarrow>
          merge_dot xs ((r, yv) # ys')
            (if r = c then d + word_of_int xv * word_of_int yv else d))"

text \<open>The dot product that the program computes for the cell \<open>(i, j)\<close>.\<close>

definition computed_dot :: "memory \<Rightarrow> CSR_Matrix \<Rightarrow> CCS_Matrix \<Rightarrow> int \<Rightarrow> int \<Rightarrow> cint" where
  "computed_dot m X Y i j =
     fst (dot_loop m X Y i j (fst (rd m (row_ptr X) i)) (fst (rd m (col_ptr Y) j)) 0)"

text \<open>The entries that the program emits for row \<open>i\<close>, columns \<open>j, \<dots>, cols - 1\<close>.\<close>

definition emitted :: "memory \<Rightarrow> CSR_Matrix \<Rightarrow> CCS_Matrix \<Rightarrow> int \<Rightarrow> int \<Rightarrow> (int \<times> int) list" where
  "emitted m X Y i j =
     map (\<lambda>k. (k, sint (computed_dot m X Y i k)))
       (filter (\<lambda>k. computed_dot m X Y i k \<noteq> 0) [j..CCS_Matrix.num_cols Y - 1])"

text \<open>The entries that the program emits for the rows \<open>a, \<dots>, b - 1\<close>.\<close>

definition emitted_rows ::
  "memory \<Rightarrow> CSR_Matrix \<Rightarrow> CCS_Matrix \<Rightarrow> int \<Rightarrow> int \<Rightarrow> (int \<times> int) list" where
  "emitted_rows m X Y a b = concat (map (\<lambda>i. emitted m X Y i 0) [a..b - 1])"

text \<open>The read of the cell just past the end of \<^verbatim>\<open>Y->row_ind\<close>.\<close>

definition past_row_ind :: "memory \<Rightarrow> CCS_Matrix \<Rightarrow> fault" where
  "past_row_ind m Y = Bad_read (Heap (row_ind Y)) (int (length (blocks m ! row_ind Y)))"

text \<open>
  The sizes of the scratch arrays fit an \<^verbatim>\<open>int\<close>: \<open>X.rows * Y.cols\<close> and \<open>X.rows + 1\<close>
  are less than \<open>2^31\<close>.
\<close>

definition sizes_fit :: "CSR_Matrix \<Rightarrow> CCS_Matrix \<Rightarrow> bool" where
  "sizes_fit X Y \<longleftrightarrow>
     CSR_Matrix.num_rows X * CCS_Matrix.num_cols Y < 2147483648 \<and>
     CSR_Matrix.num_rows X + 1 < 2147483648"

text \<open>A fault that is a write.\<close>

fun is_write :: "fault \<Rightarrow> bool" where
  "is_write (Bad_write pl i) = True"
| "is_write (Bad_read pl i) = False"

text \<open>
  The example of \<^verbatim>\<open>main\<close>: the arrays of \<open>X\<close> are blocks 0 to 2, those of \<open>Y\<close> 3 to 5,
  each with the cells that \<^verbatim>\<open>main\<close> stores. (\<^verbatim>\<open>main\<close> gets \<^verbatim>\<open>Y->col_ptr\<close> from
  \<^verbatim>\<open>init_CCS_matrix\<close>, which allocates \<open>num_rows + 1 = 6\<close> cells for it, and stores 7; the
  block here has the 7 cells of the matrix that is meant.)
\<close>

definition main_mem :: memory where
  "main_mem =
     \<lparr>blocks = [[2, 4, 3, 1, 6, 2], [0, 3, 2, 0, 1, 4], [0, 2, 2, 3, 4, 4, 5, 6],
                [3, 11, 2, 3, 5, 4, 2, 6, 5], [0, 4, 1, 1, 3, 0, 1, 2, 4],
                [0, 2, 3, 5, 6, 8, 9]],
      stray = (\<lambda>pl i. 0)\<rparr>"

definition main_X :: CSR_Matrix where
  "main_X = \<lparr>CSR_Matrix.val = 0, col_ind = 1, row_ptr = 2, num_rows = 7, num_cols = 5\<rparr>"

definition main_Y :: CCS_Matrix where
  "main_Y = \<lparr>CCS_Matrix.val = 3, row_ind = 4, col_ptr = 5, num_rows = 5, num_cols = 6\<rparr>"

text \<open>
  A second example: \<open>X\<close> is the 1\<times>2 matrix \<open>(0 5)\<close>, \<open>Y\<close> the 2\<times>1 matrix with 7 above 0.
  The only entry of \<open>X\<close> is in column 1, the only entry of \<open>Y\<close> in row 0, so the
  cursor runs to the end of the column of \<open>Y\<close> while an entry of \<open>X\<close> remains.
\<close>

definition gap_mem :: memory where
  "gap_mem = \<lparr>blocks = [[5], [1], [0, 1], [7], [0], [0, 1]], stray = (\<lambda>pl i. - 1)\<rparr>"

definition gap_X :: CSR_Matrix where
  "gap_X = \<lparr>CSR_Matrix.val = 0, col_ind = 1, row_ptr = 2, num_rows = 1, num_cols = 2\<rparr>"

definition gap_Y :: CCS_Matrix where
  "gap_Y = \<lparr>CCS_Matrix.val = 3, row_ind = 4, col_ptr = 5, num_rows = 2, num_cols = 1\<rparr>"

text \<open>
  Four more examples, for the arithmetic in \<^verbatim>\<open>int\<close>. In the first three the products
  \<open>X.rows * Y.cols\<close> or \<open>X.rows + 1\<close> do not fit an \<^verbatim>\<open>int\<close>, although the arrays of
  the operands are small or empty.

  \<open>big\<close>: \<open>X\<close> is 46341\<times>1 and \<open>Y\<close> is 1\<times>46341, each with the single entry 1 at
  \<open>(0, 0)\<close>; \<open>46341 * 46341 = 2147488281\<close> is \<open>- 2147479015\<close> as an \<^verbatim>\<open>int\<close>.
\<close>

definition big_mem :: memory where
  "big_mem = \<lparr>blocks = [[1], [0], 0 # replicate 46341 1, [1], [0], 0 # replicate 46341 1],
              stray = (\<lambda>pl i. 0)\<rparr>"

definition big_X :: CSR_Matrix where
  "big_X = \<lparr>CSR_Matrix.val = 0, col_ind = 1, row_ptr = 2, num_rows = 46341, num_cols = 1\<rparr>"

definition big_Y :: CCS_Matrix where
  "big_Y = \<lparr>CCS_Matrix.val = 3, row_ind = 4, col_ptr = 5, num_rows = 1, num_cols = 46341\<rparr>"

text \<open>
  \<open>tall\<close>: \<open>X\<close> is the empty matrix with \<open>2147483647\<close> rows and no column, \<open>Y\<close> the
  empty 0\<times>0 matrix; \<open>X.rows + 1\<close> is \<open>- 2147483648\<close> as an \<^verbatim>\<open>int\<close>.
\<close>

definition tall_mem :: memory where
  "tall_mem = \<lparr>blocks = [[], [], replicate 2147483648 0, [], [], [0]], stray = (\<lambda>pl i. 0)\<rparr>"

definition tall_X :: CSR_Matrix where
  "tall_X = \<lparr>CSR_Matrix.val = 0, col_ind = 1, row_ptr = 2, num_rows = 2147483647,
             num_cols = 0\<rparr>"

definition tall_Y :: CCS_Matrix where
  "tall_Y = \<lparr>CCS_Matrix.val = 3, row_ind = 4, col_ptr = 5, num_rows = 0, num_cols = 0\<rparr>"

text \<open>
  \<open>wide\<close>: \<open>X\<close> is 65536\<times>1 and \<open>Y\<close> is 1\<times>65536, each with the single entry 1 at
  \<open>(0, 0)\<close>; \<open>65536 * 65536\<close> is 0 as an \<^verbatim>\<open>int\<close>.
\<close>

definition wide_mem :: memory where
  "wide_mem = \<lparr>blocks = [[1], [0], 0 # replicate 65536 1, [1], [0], 0 # replicate 65536 1],
               stray = (\<lambda>pl i. 0)\<rparr>"

definition wide_X :: CSR_Matrix where
  "wide_X = \<lparr>CSR_Matrix.val = 0, col_ind = 1, row_ptr = 2, num_rows = 65536, num_cols = 1\<rparr>"

definition wide_Y :: CCS_Matrix where
  "wide_Y = \<lparr>CCS_Matrix.val = 3, row_ind = 4, col_ptr = 5, num_rows = 1, num_cols = 65536\<rparr>"

text \<open>
  \<open>sq\<close>: the 1\<times>1 matrices with the entry 46341, whose product does not fit an
  \<^verbatim>\<open>int\<close>.
\<close>

definition sq_mem :: memory where
  "sq_mem = \<lparr>blocks = [[46341], [0], [0, 1], [46341], [0], [0, 1]], stray = (\<lambda>pl i. 0)\<rparr>"

definition sq_X :: CSR_Matrix where
  "sq_X = \<lparr>CSR_Matrix.val = 0, col_ind = 1, row_ptr = 2, num_rows = 1, num_cols = 1\<rparr>"

definition sq_Y :: CCS_Matrix where
  "sq_Y = \<lparr>CCS_Matrix.val = 3, row_ind = 4, col_ptr = 5, num_rows = 1, num_cols = 1\<rparr>"

section \<open>The merge computes the dot product\<close>

lemma entry_Nil: "entry [] k = 0"
  by (simp add: entry_def)

lemma entry_Cons: "entry ((c, v) # es) k = (if k = c then word_of_int v else entry es k)"
  by (simp add: entry_def)

lemma entry_not_key: "k \<notin> fst ` set es \<Longrightarrow> entry es k = 0"
  by (simp add: entry_def map_of_eq_None_iff [THEN iffD2])

lemma map_of_dropWhile_ge:
  "(c::int) \<le> k \<Longrightarrow> map_of (dropWhile (\<lambda>(r, yv). r < c) ys) k = map_of ys k"
  by (induction ys) auto

lemma entry_dropWhile_ge:
  "c \<le> k \<Longrightarrow> entry (dropWhile (\<lambda>(r, yv). r < c) ys) k = entry ys k"
  by (simp add: entry_def map_of_dropWhile_ge)

lemma sorted_wrt_dropWhile_keys:
  "sorted_wrt (<) (map fst ys) \<Longrightarrow> sorted_wrt (<) (map fst (dropWhile P ys))"
  by (induction ys) auto

lemma merge_dot_sum:
  "sorted_wrt (<) (map fst xs) \<Longrightarrow> sorted_wrt (<) (map fst ys) \<Longrightarrow>
   merge_dot xs ys d = d + (\<Sum>(c, xv) \<leftarrow> xs. word_of_int xv * entry ys c)"
proof (induction xs arbitrary: ys d)
  case Nil
  show ?case by simp
next
  case (Cons x xs)
  obtain c xv where x: "x = (c, xv)" by (cases x)
  let ?ys1 = "dropWhile (\<lambda>(r, yv). r < c) ys"
  have later: "c < c'" if "(c', xv') \<in> set xs" for c' xv'
    using Cons.prems(1) that by (force simp: x)
  have same: "entry ?ys1 k = entry ys k" if "c \<le> k" for k
    using that by (rule entry_dropWhile_ge)
  have rest: "(\<Sum>(c', xv') \<leftarrow> xs. word_of_int xv' * entry ?ys1 c')
            = (\<Sum>(c', xv') \<leftarrow> xs. word_of_int xv' * entry ys c')"
    by (rule arg_cong [where f = sum_list], rule map_cong)
       (auto simp: same dest: later)
  show ?case
  proof (cases ?ys1)
    case Nil
    have z: "entry ys k = 0" if "c \<le> k" for k
      using same [OF that] unfolding Nil by (simp only: entry_Nil)
    have "(\<Sum>(c', xv') \<leftarrow> xs. word_of_int xv' * entry ?ys1 c') = 0"
      unfolding Nil by (induction xs) (auto simp: entry_Nil)
    then have "(\<Sum>(c', xv') \<leftarrow> xs. word_of_int xv' * entry ys c') = 0"
      using rest by simp
    moreover have "merge_dot (x # xs) ys d = d"
      unfolding x merge_dot.simps Nil by simp
    ultimately show ?thesis by (simp add: x z)
  next
    case (Cons y ys')
    obtain r yv where y: "y = (r, yv)" by (cases y)
    have "\<not> (\<lambda>(r, yv). r < c) (hd ?ys1)"
      by (rule hd_dropWhile) (simp add: Cons)
    then have rc: "c \<le> r" by (simp add: Cons y)
    have s1: "sorted_wrt (<) (map fst ?ys1)"
      using Cons.prems(2) by (rule sorted_wrt_dropWhile_keys)
    have "c \<notin> fst ` set ys'" if "r \<noteq> c"
      using s1 rc that unfolding Cons y by force
    then have "entry ys' c = 0" if "r \<noteq> c"
      using that by (simp add: entry_not_key)
    then have ec: "entry ys c = (if r = c then word_of_int yv else 0)"
      using same [of c] by (auto simp: Cons y entry_Cons)
    have sx: "sorted_wrt (<) (map fst xs)"
      using Cons.prems(1) by simp
    have "merge_dot (x # xs) ys d
            = merge_dot xs ?ys1 (if r = c then d + word_of_int xv * word_of_int yv else d)"
      by (simp add: x Cons y)
    also have "\<dots> = (if r = c then d + word_of_int xv * word_of_int yv else d)
                   + (\<Sum>(c', xv') \<leftarrow> xs. word_of_int xv' * entry ?ys1 c')"
      by (rule Cons.IH [OF sx s1])
    finally show ?thesis
      using rest ec by (simp add: x)
  qed
qed

lemma sum_entry_keys:
  "distinct (map fst xs) \<Longrightarrow> fst ` set xs \<subseteq> {0..<n} \<Longrightarrow>
   (\<Sum>k \<in> {0..<n}. entry xs k * f k) = (\<Sum>(c, xv) \<leftarrow> xs. word_of_int xv * f c)"
proof (induction xs)
  case Nil
  show ?case by (simp add: entry_Nil)
next
  case (Cons x xs)
  obtain c xv where x: "x = (c, xv)" by (cases x)
  have c: "c \<in> {0..<n}" and nk: "c \<notin> fst ` set xs"
    using Cons.prems by (auto simp: x)
  have "(\<Sum>k \<in> {0..<n}. entry (x # xs) k * f k)
        = entry (x # xs) c * f c + (\<Sum>k \<in> {0..<n} - {c}. entry (x # xs) k * f k)"
    using c by (simp add: sum.remove)
  also have "(\<Sum>k \<in> {0..<n} - {c}. entry (x # xs) k * f k)
        = (\<Sum>k \<in> {0..<n} - {c}. entry xs k * f k)"
    by (rule sum.cong) (auto simp: x entry_Cons)
  also have "\<dots> = (\<Sum>k \<in> {0..<n}. entry xs k * f k)"
    using c nk by (simp add: sum.remove [of _ c] entry_not_key)
  also have "\<dots> = (\<Sum>(c, xv) \<leftarrow> xs. word_of_int xv * f c)"
    using Cons.prems by (intro Cons.IH) auto
  finally show ?case by (simp add: x entry_Cons)
qed

section \<open>The loops of the dot product are the merge\<close>

lemma rd_in_bounds:
  "p < length (blocks m) \<Longrightarrow> 0 \<le> i \<Longrightarrow> i < int (length (blocks m ! p)) \<Longrightarrow>
   rd m p i = (blocks m ! p ! nat i, [])"
  by (simp add: rd_def)

lemma slice_Cons:
  "0 \<le> a \<Longrightarrow> a < b \<Longrightarrow> b \<le> int (length xs) \<Longrightarrow>
   slice xs a b = xs ! nat a # slice xs (a + 1) b"
proof -
  assume "0 \<le> a" "a < b" "b \<le> int (length xs)"
  then have "nat a < length (take (nat b) xs)" by simp
  then have "drop (nat a) (take (nat b) xs)
               = take (nat b) xs ! nat a # drop (Suc (nat a)) (take (nat b) xs)"
    by (rule Cons_nth_drop_Suc [symmetric])
  moreover have "Suc (nat a) = nat (a + 1)" using \<open>0 \<le> a\<close> by simp
  moreover have "take (nat b) xs ! nat a = xs ! nat a" using \<open>a < b\<close> \<open>0 \<le> a\<close> by simp
  ultimately show ?thesis by (simp add: slice_def)
qed

lemma slice_empty: "b \<le> a \<Longrightarrow> slice xs a b = []"
  by (simp add: slice_def)

lemma advance_fst:
  "fst (advance m X Y j x y) =
     (if fst (rd m (row_ind Y) y) < fst (rd m (col_ind X) x) \<and> y < fst (rd m (col_ptr Y) (j + 1))
      then fst (advance m X Y j x (y + 1)) else y)"
  by (subst advance.simps) (simp split: prod.splits)

lemma advance_ge: "y \<le> fst (advance m X Y j x y)"
proof (induction "nat (fst (rd m (col_ptr Y) (j + 1)) - y)" arbitrary: y rule: less_induct)
  case less
  show ?case
  proof (cases "fst (rd m (row_ind Y) y) < fst (rd m (col_ind X) x) \<and>
                y < fst (rd m (col_ptr Y) (j + 1))")
    case True
    then have "nat (fst (rd m (col_ptr Y) (j + 1)) - (y + 1))
                 < nat (fst (rd m (col_ptr Y) (j + 1)) - y)"
      by simp
    then have "y + 1 \<le> fst (advance m X Y j x (y + 1))" by (rule less.hyps)
    moreover have "fst (advance m X Y j x y) = fst (advance m X Y j x (y + 1))"
      using True by (subst advance_fst) simp
    ultimately show ?thesis by simp
  next
    case False
    then have "fst (advance m X Y j x y) = y" by (subst advance_fst) auto
    then show ?thesis by simp
  qed
qed

lemma advance_slice:
  assumes "row_ind Y < length (blocks m)"
    and "length (blocks m ! row_ind Y) = length (blocks m ! CCS_Matrix.val Y)"
    and "0 \<le> y" and "y \<le> fst (rd m (col_ptr Y) (j + 1))"
    and "fst (rd m (col_ptr Y) (j + 1)) \<le> int (length (blocks m ! row_ind Y))"
  shows "y \<le> fst (advance m X Y j x y) \<and>
         fst (advance m X Y j x y) \<le> fst (rd m (col_ptr Y) (j + 1)) \<and>
         slice (zip (blocks m ! row_ind Y) (blocks m ! CCS_Matrix.val Y))
               (fst (advance m X Y j x y)) (fst (rd m (col_ptr Y) (j + 1)))
           = dropWhile (\<lambda>(r, yv). r < fst (rd m (col_ind X) x))
               (slice (zip (blocks m ! row_ind Y) (blocks m ! CCS_Matrix.val Y))
                  y (fst (rd m (col_ptr Y) (j + 1))))"
  using assms(3,4)
proof (induction "nat (fst (rd m (col_ptr Y) (j + 1)) - y)" arbitrary: y rule: less_induct)
  case less
  let ?e = "fst (rd m (col_ptr Y) (j + 1))"
  let ?YS = "zip (blocks m ! row_ind Y) (blocks m ! CCS_Matrix.val Y)"
  show ?case
  proof (cases "y < ?e")
    case False
    then have "fst (advance m X Y j x y) = y"
      by (subst advance_fst) simp
    moreover have "slice ?YS y ?e = []"
      using False by (simp add: slice_empty)
    ultimately show ?thesis using less.prems by simp
  next
    case True
    have len: "?e \<le> int (length ?YS)" using assms(2,5) by simp
    have r: "rd m (row_ind Y) y = (blocks m ! row_ind Y ! nat y, [])"
      using True less.prems assms(1,5) by (intro rd_in_bounds) auto
    have nth: "?YS ! nat y = (blocks m ! row_ind Y ! nat y, blocks m ! CCS_Matrix.val Y ! nat y)"
      using True less.prems assms(2,5) by (intro nth_zip) auto
    have sl: "slice ?YS y ?e = ?YS ! nat y # slice ?YS (y + 1) ?e"
      using less.prems(1) True len by (rule slice_Cons)
    show ?thesis
    proof (cases "blocks m ! row_ind Y ! nat y < fst (rd m (col_ind X) x)")
      case False
      then have "fst (advance m X Y j x y) = y"
        by (subst advance_fst) (simp add: r)
      then show ?thesis using less.prems False by (simp add: sl nth)
    next
      case lt: True
      have step: "fst (advance m X Y j x y) = fst (advance m X Y j x (y + 1))"
        using lt True by (subst advance_fst) (simp add: r)
      have "nat (?e - (y + 1)) < nat (?e - y)" using True by simp
      from less.hyps [OF this] less.prems True
      have "y + 1 \<le> fst (advance m X Y j x (y + 1)) \<and>
            fst (advance m X Y j x (y + 1)) \<le> ?e \<and>
            slice ?YS (fst (advance m X Y j x (y + 1))) ?e
              = dropWhile (\<lambda>(r, yv). r < fst (rd m (col_ind X) x)) (slice ?YS (y + 1) ?e)"
        by simp
      then show ?thesis using lt by (simp add: step sl nth)
    qed
  qed
qed

lemma dot_loop_fst:
  "fst (dot_loop m X Y i j x y d) =
     (if x < fst (rd m (row_ptr X) (i + 1)) then
        (if fst (advance m X Y j x y) \<ge> fst (rd m (col_ptr Y) (j + 1)) then d
         else fst (dot_loop m X Y i j (x + 1) (fst (advance m X Y j x y))
                (if fst (rd m (row_ind Y) (fst (advance m X Y j x y))) = fst (rd m (col_ind X) x)
                 then d + word_of_int (fst (rd m (CSR_Matrix.val X) x))
                        * word_of_int (fst (rd m (CCS_Matrix.val Y) (fst (advance m X Y j x y))))
                 else d)))
      else d)"
  by (subst dot_loop.simps) (simp split: prod.splits)

lemma dot_loop_merge:
  assumes "row_ind Y < length (blocks m)" and "CCS_Matrix.val Y < length (blocks m)"
    and "length (blocks m ! row_ind Y) = length (blocks m ! CCS_Matrix.val Y)"
    and "fst (rd m (col_ptr Y) (j + 1)) \<le> int (length (blocks m ! row_ind Y))"
    and "col_ind X < length (blocks m)" and "CSR_Matrix.val X < length (blocks m)"
    and "length (blocks m ! col_ind X) = length (blocks m ! CSR_Matrix.val X)"
    and "fst (rd m (row_ptr X) (i + 1)) \<le> int (length (blocks m ! col_ind X))"
    and "0 \<le> x" and "0 \<le> y" and "y \<le> fst (rd m (col_ptr Y) (j + 1))"
  shows "fst (dot_loop m X Y i j x y d)
           = merge_dot
               (slice (zip (blocks m ! col_ind X) (blocks m ! CSR_Matrix.val X))
                  x (fst (rd m (row_ptr X) (i + 1))))
               (slice (zip (blocks m ! row_ind Y) (blocks m ! CCS_Matrix.val Y))
                  y (fst (rd m (col_ptr Y) (j + 1)))) d"
  using assms(9,10,11)
proof (induction "nat (fst (rd m (row_ptr X) (i + 1)) - x)" arbitrary: x y d rule: less_induct)
  case less
  let ?hi = "fst (rd m (row_ptr X) (i + 1))"
  let ?e = "fst (rd m (col_ptr Y) (j + 1))"
  let ?XS = "zip (blocks m ! col_ind X) (blocks m ! CSR_Matrix.val X)"
  let ?YS = "zip (blocks m ! row_ind Y) (blocks m ! CCS_Matrix.val Y)"
  let ?y' = "fst (advance m X Y j x y)"
  show ?case
  proof (cases "x < ?hi")
    case False
    then show ?thesis by (subst dot_loop_fst) (simp add: slice_empty)
  next
    case True
    have c: "rd m (col_ind X) x = (blocks m ! col_ind X ! nat x, [])"
      using True less.prems assms(5,8) by (intro rd_in_bounds) auto
    have xv: "rd m (CSR_Matrix.val X) x = (blocks m ! CSR_Matrix.val X ! nat x, [])"
      using True less.prems assms(6,7,8) by (intro rd_in_bounds) auto
    have nthx: "?XS ! nat x = (blocks m ! col_ind X ! nat x, blocks m ! CSR_Matrix.val X ! nat x)"
      using True less.prems assms(7,8) by (intro nth_zip) auto
    have "?hi \<le> int (length ?XS)" using assms(7,8) by simp
    with less.prems(1) True
    have slx: "slice ?XS x ?hi = ?XS ! nat x # slice ?XS (x + 1) ?hi"
      by (rule slice_Cons)
    from advance_slice [OF assms(1,3) less.prems(2,3) assms(4), of X x]
    have y': "y \<le> ?y'" "?y' \<le> ?e"
      and dw: "dropWhile (\<lambda>(r, yv). r < blocks m ! col_ind X ! nat x) (slice ?YS y ?e)
                 = slice ?YS ?y' ?e"
      by (simp_all add: c)
    show ?thesis
    proof (cases "?e \<le> ?y'")
      case brk: True
      then have "slice ?YS ?y' ?e = []" by (simp add: slice_empty)
      moreover have "fst (dot_loop m X Y i j x y d) = d"
        using True brk by (subst dot_loop_fst) simp
      ultimately show ?thesis by (simp add: slx nthx dw)
    next
      case False
      then have lt: "?y' < ?e" by simp
      have y0: "0 \<le> ?y'" using less.prems(2) y'(1) by simp
      have r: "rd m (row_ind Y) ?y' = (blocks m ! row_ind Y ! nat ?y', [])"
        using lt y0 assms(1,4) by (intro rd_in_bounds) auto
      have yv: "rd m (CCS_Matrix.val Y) ?y' = (blocks m ! CCS_Matrix.val Y ! nat ?y', [])"
        using lt y0 assms(2,3,4) by (intro rd_in_bounds) auto
      have nthy: "?YS ! nat ?y'
                    = (blocks m ! row_ind Y ! nat ?y', blocks m ! CCS_Matrix.val Y ! nat ?y')"
        using lt y0 assms(3,4) by (intro nth_zip) auto
      have "?e \<le> int (length ?YS)" using assms(3,4) by simp
      with y0 lt have sly: "slice ?YS ?y' ?e = ?YS ! nat ?y' # slice ?YS (?y' + 1) ?e"
        by (rule slice_Cons)
      let ?d' = "if blocks m ! row_ind Y ! nat ?y' = blocks m ! col_ind X ! nat x
                 then d + word_of_int (blocks m ! CSR_Matrix.val X ! nat x)
                        * word_of_int (blocks m ! CCS_Matrix.val Y ! nat ?y')
                 else d"
      have "fst (dot_loop m X Y i j x y d) = fst (dot_loop m X Y i j (x + 1) ?y' ?d')"
        using True False by (subst dot_loop_fst) (simp add: c xv r yv)
      also have "\<dots> = merge_dot (slice ?XS (x + 1) ?hi) (slice ?YS ?y' ?e) ?d'"
        using True less.prems(1) y0 y'(2) by (intro less.hyps) auto
      also have "\<dots> = merge_dot (slice ?XS x ?hi) (slice ?YS y ?e) d"
        by (simp add: slx nthx dw sly nthy)
      finally show ?thesis .
    qed
  qed
qed

lemma map_fst_slice_zip:
  "length xs = length ys \<Longrightarrow> map fst (slice (zip xs ys) a b) = slice xs a b"
  by (simp add: slice_def drop_map [symmetric] take_map [symmetric])

lemma set_slice_subset: "set (slice xs a b) \<subseteq> set xs"
  unfolding slice_def by (meson set_drop_subset set_take_subset subset_trans)

lemma wf_CSR_row_ptr:
  assumes "wf_CSR m X" and "0 \<le> i" and "i \<le> CSR_Matrix.num_rows X"
  shows "rd m (row_ptr X) i = (blocks m ! row_ptr X ! nat i, [])"
    and "0 \<le> blocks m ! row_ptr X ! nat i"
    and "blocks m ! row_ptr X ! nat i \<le> int (length (blocks m ! col_ind X))"
proof -
  let ?rp = "blocks m ! row_ptr X"
  have len: "int (length ?rp) = CSR_Matrix.num_rows X + 1" and s: "sorted ?rp"
    and z: "?rp ! 0 = 0"
    and l: "?rp ! nat (CSR_Matrix.num_rows X) = int (length (blocks m ! col_ind X))"
    and p: "row_ptr X < length (blocks m)"
    using assms(1) by (simp_all add: wf_CSR_def)
  have i: "nat i < length ?rp" using len assms(2,3) by linarith
  show "rd m (row_ptr X) i = (?rp ! nat i, [])"
    using p assms(2) i by (intro rd_in_bounds) auto
  have "?rp ! 0 \<le> ?rp ! nat i"
    using s i by (intro sorted_nth_mono) auto
  then show "0 \<le> ?rp ! nat i" by (simp add: z)
  have "?rp ! nat i \<le> ?rp ! nat (CSR_Matrix.num_rows X)"
    using s len assms(2,3) by (intro sorted_nth_mono) auto
  then show "?rp ! nat i \<le> int (length (blocks m ! col_ind X))" by (simp add: l)
qed

lemma wf_CCS_col_ptr:
  assumes "wf_CCS m Y" and "0 \<le> j" and "j \<le> CCS_Matrix.num_cols Y"
  shows "rd m (col_ptr Y) j = (blocks m ! col_ptr Y ! nat j, [])"
    and "0 \<le> blocks m ! col_ptr Y ! nat j"
    and "blocks m ! col_ptr Y ! nat j \<le> int (length (blocks m ! row_ind Y))"
proof -
  let ?cp = "blocks m ! col_ptr Y"
  have len: "int (length ?cp) = CCS_Matrix.num_cols Y + 1" and s: "sorted ?cp"
    and z: "?cp ! 0 = 0"
    and l: "?cp ! nat (CCS_Matrix.num_cols Y) = int (length (blocks m ! row_ind Y))"
    and p: "col_ptr Y < length (blocks m)"
    using assms(1) by (simp_all add: wf_CCS_def)
  have j: "nat j < length ?cp" using len assms(2,3) by linarith
  show "rd m (col_ptr Y) j = (?cp ! nat j, [])"
    using p assms(2) j by (intro rd_in_bounds) auto
  have "?cp ! 0 \<le> ?cp ! nat j"
    using s j by (intro sorted_nth_mono) auto
  then show "0 \<le> ?cp ! nat j" by (simp add: z)
  have "?cp ! nat j \<le> ?cp ! nat (CCS_Matrix.num_cols Y)"
    using s len assms(2,3) by (intro sorted_nth_mono) auto
  then show "?cp ! nat j \<le> int (length (blocks m ! row_ind Y))" by (simp add: l)
qed

lemma wf_CSR_mono:
  assumes "wf_CSR m X" and "0 \<le> i" and "i < CSR_Matrix.num_rows X"
  shows "blocks m ! row_ptr X ! nat i \<le> blocks m ! row_ptr X ! nat (i + 1)"
proof -
  have "int (length (blocks m ! row_ptr X)) = CSR_Matrix.num_rows X + 1"
    and "sorted (blocks m ! row_ptr X)"
    using assms(1) by (simp_all add: wf_CSR_def)
  then show ?thesis using assms(2,3) by (intro sorted_nth_mono) auto
qed

lemma wf_CCS_mono:
  assumes "wf_CCS m Y" and "0 \<le> j" and "j < CCS_Matrix.num_cols Y"
  shows "blocks m ! col_ptr Y ! nat j \<le> blocks m ! col_ptr Y ! nat (j + 1)"
proof -
  have "int (length (blocks m ! col_ptr Y)) = CCS_Matrix.num_cols Y + 1"
    and "sorted (blocks m ! col_ptr Y)"
    using assms(1) by (simp_all add: wf_CCS_def)
  then show ?thesis using assms(2,3) by (intro sorted_nth_mono) auto
qed

lemma computed_dot_merge:
  assumes X: "wf_CSR m X" and Y: "wf_CCS m Y"
    and i: "0 \<le> i" "i < CSR_Matrix.num_rows X"
    and j: "0 \<le> j" "j < CCS_Matrix.num_cols Y"
  shows "computed_dot m X Y i j = merge_dot (row_entries m X i) (col_entries m Y j) 0"
proof -
  have hi: "rd m (row_ptr X) (i + 1) = (blocks m ! row_ptr X ! nat (i + 1), [])"
    and hi_le: "blocks m ! row_ptr X ! nat (i + 1) \<le> int (length (blocks m ! col_ind X))"
    using wf_CSR_row_ptr [OF X, of "i + 1"] i by simp_all
  have lo: "rd m (row_ptr X) i = (blocks m ! row_ptr X ! nat i, [])"
    and lo0: "0 \<le> blocks m ! row_ptr X ! nat i"
    using wf_CSR_row_ptr [OF X, of i] i by simp_all
  have e: "rd m (col_ptr Y) (j + 1) = (blocks m ! col_ptr Y ! nat (j + 1), [])"
    and e_le: "blocks m ! col_ptr Y ! nat (j + 1) \<le> int (length (blocks m ! row_ind Y))"
    using wf_CCS_col_ptr [OF Y, of "j + 1"] j by simp_all
  have y: "rd m (col_ptr Y) j = (blocks m ! col_ptr Y ! nat j, [])"
    and y0: "0 \<le> blocks m ! col_ptr Y ! nat j"
    using wf_CCS_col_ptr [OF Y, of j] j by simp_all
  have ye: "blocks m ! col_ptr Y ! nat j \<le> blocks m ! col_ptr Y ! nat (j + 1)"
    using wf_CCS_mono [OF Y j] .
  have "fst (dot_loop m X Y i j (blocks m ! row_ptr X ! nat i) (blocks m ! col_ptr Y ! nat j) 0)
          = merge_dot
              (slice (zip (blocks m ! col_ind X) (blocks m ! CSR_Matrix.val X))
                 (blocks m ! row_ptr X ! nat i) (fst (rd m (row_ptr X) (i + 1))))
              (slice (zip (blocks m ! row_ind Y) (blocks m ! CCS_Matrix.val Y))
                 (blocks m ! col_ptr Y ! nat j) (fst (rd m (col_ptr Y) (j + 1)))) 0"
    using X Y hi_le e_le lo0 y0 ye
    by (intro dot_loop_merge) (simp_all add: wf_CSR_def wf_CCS_def hi e)
  then show ?thesis
    by (simp add: computed_dot_def lo y hi e row_entries_def col_entries_def
        row_slice_def col_slice_def)
qed

lemma row_entries_keys:
  assumes X: "wf_CSR m X" and i: "0 \<le> i" "i < CSR_Matrix.num_rows X"
  shows "sorted_wrt (<) (map fst (row_entries m X i))"
    and "fst ` set (row_entries m X i) \<subseteq> {0..<CSR_Matrix.num_cols X}"
proof -
  have len: "length (blocks m ! col_ind X) = length (blocks m ! CSR_Matrix.val X)"
    using X by (simp add: wf_CSR_def)
  have keys: "map fst (row_entries m X i) = row_slice m X i (blocks m ! col_ind X)"
    by (simp add: row_entries_def row_slice_def map_fst_slice_zip [OF len])
  have "sorted_wrt (<) (row_slice m X i (blocks m ! col_ind X))"
    using X i by (simp add: wf_CSR_def)
  then show "sorted_wrt (<) (map fst (row_entries m X i))" by (simp add: keys)
  have "set (row_slice m X i (blocks m ! col_ind X)) \<subseteq> set (blocks m ! col_ind X)"
    unfolding row_slice_def by (rule set_slice_subset)
  moreover have "\<forall>c \<in> set (blocks m ! col_ind X). 0 \<le> c \<and> c < CSR_Matrix.num_cols X"
    using X by (simp add: wf_CSR_def)
  ultimately have "set (map fst (row_entries m X i)) \<subseteq> {0..<CSR_Matrix.num_cols X}"
    unfolding keys by auto
  then show "fst ` set (row_entries m X i) \<subseteq> {0..<CSR_Matrix.num_cols X}" by simp
qed

lemma col_entries_keys:
  assumes Y: "wf_CCS m Y" and j: "0 \<le> j" "j < CCS_Matrix.num_cols Y"
  shows "sorted_wrt (<) (map fst (col_entries m Y j))"
proof -
  have len: "length (blocks m ! row_ind Y) = length (blocks m ! CCS_Matrix.val Y)"
    using Y by (simp add: wf_CCS_def)
  have keys: "map fst (col_entries m Y j) = col_slice m Y j (blocks m ! row_ind Y)"
    by (simp add: col_entries_def col_slice_def map_fst_slice_zip [OF len])
  have "sorted_wrt (<) (col_slice m Y j (blocks m ! row_ind Y))"
    using Y j by (simp add: wf_CCS_def)
  then show ?thesis by (simp add: keys)
qed

lemma computed_dot_sum:
  assumes X: "wf_CSR m X" and Y: "wf_CCS m Y"
    and i: "0 \<le> i" "i < CSR_Matrix.num_rows X"
    and j: "0 \<le> j" "j < CCS_Matrix.num_cols Y"
  shows "computed_dot m X Y i j
           = (\<Sum>k \<in> {0..<CSR_Matrix.num_cols X}. dense_CSR m X i k * dense_CCS m Y k j)"
proof -
  have sx: "sorted_wrt (<) (map fst (row_entries m X i))"
    and kx: "fst ` set (row_entries m X i) \<subseteq> {0..<CSR_Matrix.num_cols X}"
    using row_entries_keys [OF X i] by simp_all
  have sy: "sorted_wrt (<) (map fst (col_entries m Y j))"
    using col_entries_keys [OF Y j] .
  have dx: "distinct (map fst (row_entries m X i))"
    using sx strict_sorted_iff by blast
  have "computed_dot m X Y i j = merge_dot (row_entries m X i) (col_entries m Y j) 0"
    using assms by (rule computed_dot_merge)
  also have "\<dots> = (\<Sum>(c, xv) \<leftarrow> row_entries m X i. word_of_int xv * entry (col_entries m Y j) c)"
    by (simp add: merge_dot_sum [OF sx sy])
  also have "\<dots> = (\<Sum>k \<in> {0..<CSR_Matrix.num_cols X}.
                      entry (row_entries m X i) k * entry (col_entries m Y j) k)"
    by (rule sum_entry_keys [OF dx kx, symmetric])
  finally show ?thesis by (simp add: dense_CSR_def dense_CCS_def)
qed

section \<open>Accesses outside an array\<close>

lemma advance_snd:
  "snd (advance m X Y j x y) =
     snd (rd m (row_ind Y) y) @ snd (rd m (col_ind X) x) @
     (if fst (rd m (row_ind Y) y) < fst (rd m (col_ind X) x)
      then snd (rd m (col_ptr Y) (j + 1)) @
           (if y < fst (rd m (col_ptr Y) (j + 1)) then snd (advance m X Y j x (y + 1)) else [])
      else [])"
  by (subst advance.simps) (simp split: prod.splits)

lemma rd_faults:
  "snd (rd m p i) = [] \<or> snd (rd m p i) = [Bad_read (Heap p) i]"
  by (simp add: rd_def)

lemma advance_faults:
  assumes "row_ind Y < length (blocks m)"
    and "snd (rd m (col_ind X) x) = []" and "snd (rd m (col_ptr Y) (j + 1)) = []"
    and "0 \<le> y" and "y \<le> fst (rd m (col_ptr Y) (j + 1))"
    and "fst (rd m (col_ptr Y) (j + 1)) \<le> int (length (blocks m ! row_ind Y))"
  shows "set (snd (advance m X Y j x y)) \<subseteq> {past_row_ind m Y}"
  using assms(4,5)
proof (induction "nat (fst (rd m (col_ptr Y) (j + 1)) - y)" arbitrary: y rule: less_induct)
  case less
  let ?e = "fst (rd m (col_ptr Y) (j + 1))"
  show ?case
  proof (cases "y < ?e")
    case True
    have r: "rd m (row_ind Y) y = (blocks m ! row_ind Y ! nat y, [])"
      using True less.prems assms(1,6) by (intro rd_in_bounds) auto
    have "nat (?e - (y + 1)) < nat (?e - y)" using True by simp
    from less.hyps [OF this] less.prems True
    have "set (snd (advance m X Y j x (y + 1))) \<subseteq> {past_row_ind m Y}" by simp
    then show ?thesis
      by (subst advance_snd) (auto simp: r assms(2,3))
  next
    case False
    then have y: "y = ?e" using less.prems by simp
    have "set (snd (rd m (row_ind Y) y)) \<subseteq> {past_row_ind m Y}"
      using assms(1,6) less.prems(1) unfolding y
      by (auto simp: rd_def past_row_ind_def)
    then show ?thesis
      using False by (subst advance_snd) (simp add: assms(2,3))
  qed
qed

lemma dot_loop_snd:
  "snd (dot_loop m X Y i j x y d) =
     snd (rd m (row_ptr X) (i + 1)) @
     (if x < fst (rd m (row_ptr X) (i + 1)) then
        snd (advance m X Y j x y) @ snd (rd m (col_ptr Y) (j + 1)) @
        (if fst (advance m X Y j x y) \<ge> fst (rd m (col_ptr Y) (j + 1)) then []
         else
           snd (rd m (row_ind Y) (fst (advance m X Y j x y))) @ snd (rd m (col_ind X) x) @
           (if fst (rd m (row_ind Y) (fst (advance m X Y j x y))) = fst (rd m (col_ind X) x)
            then snd (rd m (CSR_Matrix.val X) x) @
                 snd (rd m (CCS_Matrix.val Y) (fst (advance m X Y j x y))) @
                 snd (dot_loop m X Y i j (x + 1) (fst (advance m X Y j x y))
                        (d + word_of_int (fst (rd m (CSR_Matrix.val X) x))
                           * word_of_int (fst (rd m (CCS_Matrix.val Y)
                                                 (fst (advance m X Y j x y))))))
            else snd (dot_loop m X Y i j (x + 1) (fst (advance m X Y j x y)) d)))
      else [])"
  by (subst dot_loop.simps) (simp split: prod.splits)

lemma dot_loop_faults:
  assumes "row_ind Y < length (blocks m)" and "CCS_Matrix.val Y < length (blocks m)"
    and "length (blocks m ! row_ind Y) = length (blocks m ! CCS_Matrix.val Y)"
    and "fst (rd m (col_ptr Y) (j + 1)) \<le> int (length (blocks m ! row_ind Y))"
    and "col_ind X < length (blocks m)" and "CSR_Matrix.val X < length (blocks m)"
    and "length (blocks m ! col_ind X) = length (blocks m ! CSR_Matrix.val X)"
    and "fst (rd m (row_ptr X) (i + 1)) \<le> int (length (blocks m ! col_ind X))"
    and "snd (rd m (row_ptr X) (i + 1)) = []" and "snd (rd m (col_ptr Y) (j + 1)) = []"
    and "0 \<le> x" and "0 \<le> y" and "y \<le> fst (rd m (col_ptr Y) (j + 1))"
  shows "set (snd (dot_loop m X Y i j x y d)) \<subseteq> {past_row_ind m Y}"
  using assms(11,12,13)
proof (induction "nat (fst (rd m (row_ptr X) (i + 1)) - x)" arbitrary: x y d rule: less_induct)
  case less
  let ?hi = "fst (rd m (row_ptr X) (i + 1))"
  let ?e = "fst (rd m (col_ptr Y) (j + 1))"
  let ?y' = "fst (advance m X Y j x y)"
  show ?case
  proof (cases "x < ?hi")
    case False
    then show ?thesis by (subst dot_loop_snd) (simp add: assms(9))
  next
    case True
    have c: "rd m (col_ind X) x = (blocks m ! col_ind X ! nat x, [])"
      using True less.prems assms(5,8) by (intro rd_in_bounds) auto
    have xv: "rd m (CSR_Matrix.val X) x = (blocks m ! CSR_Matrix.val X ! nat x, [])"
      using True less.prems assms(6,7,8) by (intro rd_in_bounds) auto
    from advance_slice [OF assms(1,3) less.prems(2,3) assms(4), of X x]
    have y': "y \<le> ?y'" "?y' \<le> ?e" by simp_all
    have adv: "set (snd (advance m X Y j x y)) \<subseteq> {past_row_ind m Y}"
      using assms(1) _ assms(10) less.prems(2,3) assms(4)
      by (rule advance_faults) (simp add: c)
    show ?thesis
    proof (cases "?e \<le> ?y'")
      case brk: True
      then show ?thesis
        using adv True by (subst dot_loop_snd) (auto simp: assms(9,10))
    next
      case False
      then have lt: "?y' < ?e" by simp
      have y0: "0 \<le> ?y'" using less.prems(2) y'(1) by simp
      have r: "rd m (row_ind Y) ?y' = (blocks m ! row_ind Y ! nat ?y', [])"
        using lt y0 assms(1,4) by (intro rd_in_bounds) auto
      have yv: "rd m (CCS_Matrix.val Y) ?y' = (blocks m ! CCS_Matrix.val Y ! nat ?y', [])"
        using lt y0 assms(2,3,4) by (intro rd_in_bounds) auto
      have "set (snd (dot_loop m X Y i j (x + 1) ?y' d')) \<subseteq> {past_row_ind m Y}" for d'
        using True less.prems(1) y0 y'(2) by (intro less.hyps) auto
      then show ?thesis
        using adv False True
        by (subst dot_loop_snd) (auto simp: assms(9,10) c xv r yv)
    qed
  qed
qed

lemma computed_dot_faults:
  assumes X: "wf_CSR m X" and Y: "wf_CCS m Y"
    and i: "0 \<le> i" "i < CSR_Matrix.num_rows X"
    and j: "0 \<le> j" "j < CCS_Matrix.num_cols Y"
  shows "set (snd (dot_loop m X Y i j (blocks m ! row_ptr X ! nat i)
                     (blocks m ! col_ptr Y ! nat j) 0)) \<subseteq> {past_row_ind m Y}"
proof -
  have hi: "rd m (row_ptr X) (i + 1) = (blocks m ! row_ptr X ! nat (i + 1), [])"
    and hi_le: "blocks m ! row_ptr X ! nat (i + 1) \<le> int (length (blocks m ! col_ind X))"
    using wf_CSR_row_ptr [OF X, of "i + 1"] i by simp_all
  have lo0: "0 \<le> blocks m ! row_ptr X ! nat i"
    using wf_CSR_row_ptr [OF X, of i] i by simp_all
  have e: "rd m (col_ptr Y) (j + 1) = (blocks m ! col_ptr Y ! nat (j + 1), [])"
    and e_le: "blocks m ! col_ptr Y ! nat (j + 1) \<le> int (length (blocks m ! row_ind Y))"
    using wf_CCS_col_ptr [OF Y, of "j + 1"] j by simp_all
  have y0: "0 \<le> blocks m ! col_ptr Y ! nat j"
    using wf_CCS_col_ptr [OF Y, of j] j by simp_all
  have ye: "blocks m ! col_ptr Y ! nat j \<le> blocks m ! col_ptr Y ! nat (j + 1)"
    using wf_CCS_mono [OF Y j] .
  show ?thesis
    using X Y hi_le e_le lo0 y0 ye
    by (intro dot_loop_faults) (simp_all add: wf_CSR_def wf_CCS_def hi e)
qed

lemma past_row_ind_not_write: "set fs \<subseteq> {past_row_ind m Y} \<Longrightarrow> \<forall>f \<in> set fs. \<not> is_write f"
  by (auto simp: past_row_ind_def)

section \<open>What the loops leave in the scratch arrays\<close>

lemma int32_id: "- 2147483648 \<le> n \<Longrightarrow> n < 2147483648 \<Longrightarrow> int32 n = n"
  by (simp add: int32_def)

lemma int32_range: "- 2147483648 \<le> int32 n \<and> int32 n < 2147483648"
proof -
  have "0 \<le> (n + 2147483648) mod 4294967296" "(n + 2147483648) mod 4294967296 < 4294967296"
    by simp_all
  then show ?thesis unfolding int32_def by linarith
qed

lemma emitted_step:
  "j < CCS_Matrix.num_cols Y \<Longrightarrow>
   emitted m X Y i j =
     (if computed_dot m X Y i j \<noteq> 0 then [(j, sint (computed_dot m X Y i j))] else [])
     @ emitted m X Y i (j + 1)"
  by (simp add: emitted_def upto_rec1 [of j "CCS_Matrix.num_cols Y - 1"])

lemma emitted_done: "CCS_Matrix.num_cols Y \<le> j \<Longrightarrow> emitted m X Y i j = []"
  by (simp add: emitted_def)

lemma length_emitted: "length (emitted m X Y i j) \<le> nat (CCS_Matrix.num_cols Y - j)"
proof -
  have "length (emitted m X Y i j) \<le> length [j..CCS_Matrix.num_cols Y - 1]"
    unfolding emitted_def length_map by (rule length_filter_le)
  then show ?thesis by simp
qed

lemma take_Suc_update:
  "n < length xs \<Longrightarrow> take (Suc n) (xs[n := v]) = take n xs @ [v]"
  by (simp add: take_Suc_conv_app_nth)

lemma cols_loop_spec:
  assumes X: "wf_CSR m X" and Y: "wf_CCS m Y"
    and i: "0 \<le> i" "i < CSR_Matrix.num_rows X"
    and len: "length (z_col_ind s) = length (z_val s)"
    and j: "0 \<le> j" "j \<le> CCS_Matrix.num_cols Y"
    and cnt: "0 \<le> z_val_count s"
             "z_val_count s + (CCS_Matrix.num_cols Y - j) \<le> int (length (z_val s))"
    and run: "cols_loop m X Y (CCS_Matrix.num_cols Y) i j s n = (s', n', fs)"
    and fit: "int (length (z_val s)) < 2147483648"
    and n0: "0 \<le> n" "n \<le> z_val_count s"
  shows "z_val_count s' = z_val_count s + int (length (emitted m X Y i j)) \<and>
         n' = n + int (length (emitted m X Y i j)) \<and>
         length (z_val s') = length (z_val s) \<and>
         length (z_col_ind s') = length (z_col_ind s) \<and>
         z_row_ptr s' = z_row_ptr s \<and>
         take (nat (z_val_count s')) (z_val s')
           = take (nat (z_val_count s)) (z_val s) @ map snd (emitted m X Y i j) \<and>
         take (nat (z_val_count s')) (z_col_ind s')
           = take (nat (z_val_count s)) (z_col_ind s) @ map fst (emitted m X Y i j) \<and>
         set fs \<subseteq> {past_row_ind m Y}"
  using len j cnt run fit n0
proof (induction "nat (CCS_Matrix.num_cols Y - j)" arbitrary: j s n s' n' fs rule: less_induct)
  case less
  let ?cols = "CCS_Matrix.num_cols Y"
  show ?case
  proof (cases "j < ?cols")
    case False
    then have "cols_loop m X Y ?cols i j s n = (s, n, [])"
      by (subst cols_loop.simps) simp
    with less.prems(6) False show ?thesis by (simp add: emitted_done)
  next
    case True
    let ?D = "computed_dot m X Y i j"
    have lo: "rd m (row_ptr X) i = (blocks m ! row_ptr X ! nat i, [])"
      using wf_CSR_row_ptr [OF X, of i] i by simp
    have y: "rd m (col_ptr Y) j = (blocks m ! col_ptr Y ! nat j, [])"
      using wf_CCS_col_ptr [OF Y, of j] less.prems(2) True by simp
    obtain F where dot: "dot_loop m X Y i j (blocks m ! row_ptr X ! nat i)
                 (blocks m ! col_ptr Y ! nat j) 0 = (?D, F)"
      by (cases "dot_loop m X Y i j (blocks m ! row_ptr X ! nat i)
                 (blocks m ! col_ptr Y ! nat j) 0") (simp add: computed_dot_def lo y)
    have F: "set F \<subseteq> {past_row_ind m Y}"
      using computed_dot_faults [OF X Y i less.prems(2) True] by (simp add: dot)
    have room: "z_val_count s < int (length (z_val s))"
      using less.prems(5) True by simp
    have dec: "nat (?cols - (j + 1)) < nat (?cols - j)" using True by simp
    show ?thesis
    proof (cases "?D = 0")
      case zero: True
      obtain s2 n2 fs2 where rec: "cols_loop m X Y ?cols i (j + 1) s n = (s2, n2, fs2)"
        by (cases "cols_loop m X Y ?cols i (j + 1) s n") auto
      have "cols_loop m X Y ?cols i j s n = (s2, n2, F @ fs2)"
        using True zero by (subst cols_loop.simps) (simp add: lo y dot rec)
      with less.prems(6) have res: "s' = s2" "n' = n2" "fs = F @ fs2" by simp_all
      have "z_val_count s2 = z_val_count s + int (length (emitted m X Y i (j + 1))) \<and>
            n2 = n + int (length (emitted m X Y i (j + 1))) \<and>
            length (z_val s2) = length (z_val s) \<and>
            length (z_col_ind s2) = length (z_col_ind s) \<and>
            z_row_ptr s2 = z_row_ptr s \<and>
            take (nat (z_val_count s2)) (z_val s2)
              = take (nat (z_val_count s)) (z_val s) @ map snd (emitted m X Y i (j + 1)) \<and>
            take (nat (z_val_count s2)) (z_col_ind s2)
              = take (nat (z_val_count s)) (z_col_ind s) @ map fst (emitted m X Y i (j + 1)) \<and>
            set fs2 \<subseteq> {past_row_ind m Y}"
        by (rule less.hyps [OF dec less.prems(1) _ _ less.prems(4) _ rec])
           (use less.prems(2,5,7,8,9) True in simp_all)
      then have c: "z_val_count s2 = z_val_count s + int (length (emitted m X Y i (j + 1)))"
        and n: "n2 = n + int (length (emitted m X Y i (j + 1)))"
        and l: "length (z_val s2) = length (z_val s)" "length (z_col_ind s2) = length (z_col_ind s)"
               "z_row_ptr s2 = z_row_ptr s"
        and t1: "take (nat (z_val_count s2)) (z_val s2)
              = take (nat (z_val_count s)) (z_val s) @ map snd (emitted m X Y i (j + 1))"
        and t2: "take (nat (z_val_count s2)) (z_col_ind s2)
              = take (nat (z_val_count s)) (z_col_ind s) @ map fst (emitted m X Y i (j + 1))"
        and f: "set fs2 \<subseteq> {past_row_ind m Y}"
        by blast+
      have em: "emitted m X Y i j = emitted m X Y i (j + 1)"
        using zero by (simp add: emitted_step [OF True])
      show ?thesis
        unfolding res em using c n l t1 t2 f F by (intro conjI) simp_all
    next
      case nz: False
      let ?k = "nat (z_val_count s)"
      define s1 where "s1 = s\<lparr>z_val := (z_val s)[?k := sint ?D],
                    z_col_ind := (z_col_ind s)[?k := j], z_val_count := z_val_count s + 1\<rparr>"
      have s1: "z_val s1 = (z_val s)[?k := sint ?D]" "z_col_ind s1 = (z_col_ind s)[?k := j]"
        "z_val_count s1 = z_val_count s + 1" "z_row_ptr s1 = z_row_ptr s"
        by (simp_all add: s1_def)
      obtain s2 n2 fs2 where rec: "cols_loop m X Y ?cols i (j + 1) s1 (n + 1) = (s2, n2, fs2)"
        by (cases "cols_loop m X Y ?cols i (j + 1) s1 (n + 1)") auto
      have w1: "int32 (z_val_count s + 1) = z_val_count s + 1"
        using room less.prems(4,7) by (intro int32_id) simp_all
      have w2: "int32 (n + 1) = n + 1"
        using room less.prems(7,8,9) by (intro int32_id) simp_all
      have "cols_loop m X Y ?cols i j s n = (s2, n2, F @ fs2)"
        using True nz room less.prems(1,4)
        by (subst cols_loop.simps)
           (simp add: lo y dot rec [unfolded s1_def] wr_local_def w1 w2)
      with less.prems(6) have res: "s' = s2" "n' = n2" "fs = F @ fs2" by simp_all
      have k: "?k < length (z_val s)" "?k < length (z_col_ind s)"
        using room less.prems(1,4) by simp_all
      have suc: "nat (z_val_count s + 1) = Suc ?k" using less.prems(4) by simp
      have "z_val_count s2 = z_val_count s1 + int (length (emitted m X Y i (j + 1))) \<and>
            n2 = n + 1 + int (length (emitted m X Y i (j + 1))) \<and>
            length (z_val s2) = length (z_val s1) \<and>
            length (z_col_ind s2) = length (z_col_ind s1) \<and>
            z_row_ptr s2 = z_row_ptr s1 \<and>
            take (nat (z_val_count s2)) (z_val s2)
              = take (nat (z_val_count s1)) (z_val s1) @ map snd (emitted m X Y i (j + 1)) \<and>
            take (nat (z_val_count s2)) (z_col_ind s2)
              = take (nat (z_val_count s1)) (z_col_ind s1) @ map fst (emitted m X Y i (j + 1)) \<and>
            set fs2 \<subseteq> {past_row_ind m Y}"
        by (rule less.hyps [OF dec _ _ _ _ _ rec])
           (use less.prems(1,2,4,5,7,8,9) True in \<open>simp_all add: s1\<close>)
      then have c: "z_val_count s2 = z_val_count s1 + int (length (emitted m X Y i (j + 1)))"
        and n: "n2 = n + 1 + int (length (emitted m X Y i (j + 1)))"
        and l: "length (z_val s2) = length (z_val s1)" "length (z_col_ind s2) = length (z_col_ind s1)"
               "z_row_ptr s2 = z_row_ptr s1"
        and t1: "take (nat (z_val_count s2)) (z_val s2)
              = take (nat (z_val_count s1)) (z_val s1) @ map snd (emitted m X Y i (j + 1))"
        and t2: "take (nat (z_val_count s2)) (z_col_ind s2)
              = take (nat (z_val_count s1)) (z_col_ind s1) @ map fst (emitted m X Y i (j + 1))"
        and f: "set fs2 \<subseteq> {past_row_ind m Y}"
        by blast+
      have em: "emitted m X Y i j = (j, sint ?D) # emitted m X Y i (j + 1)"
        using nz by (simp add: emitted_step [OF True])
      have u1: "take (nat (z_val_count s1)) (z_val s1) = take ?k (z_val s) @ [sint ?D]"
        and u2: "take (nat (z_val_count s1)) (z_col_ind s1) = take ?k (z_col_ind s) @ [j]"
        using k by (simp_all add: s1 suc take_Suc_update)
      show ?thesis
        unfolding res em t1 t2 u1 u2 using c n l f F by (intro conjI) (simp_all add: s1)
    qed
  qed
qed

lemma emitted_rows_empty: "b \<le> a \<Longrightarrow> emitted_rows m X Y a b = []"
  by (simp add: emitted_rows_def)

lemma emitted_rows_step:
  "a < b \<Longrightarrow> emitted_rows m X Y a b = emitted m X Y a 0 @ emitted_rows m X Y (a + 1) b"
  by (simp add: emitted_rows_def upto_rec1 [of a "b - 1"])

lemma emitted_rows_snoc:
  "a \<le> b \<Longrightarrow> emitted_rows m X Y a (b + 1) = emitted_rows m X Y a b @ emitted m X Y b 0"
  by (simp add: emitted_rows_def upto_rec2 [of a b])

lemma rows_loop_spec:
  assumes X: "wf_CSR m X" and Y: "wf_CCS m Y"
    and len: "length (z_col_ind s) = length (z_val s)"
             "int (length (z_row_ptr s)) = CSR_Matrix.num_rows X + 1"
    and i: "0 \<le> i" "i \<le> CSR_Matrix.num_rows X"
    and cnt: "0 \<le> z_val_count s"
             "z_val_count s + (CSR_Matrix.num_rows X - i) * CCS_Matrix.num_cols Y
                \<le> int (length (z_val s))"
    and here: "z_row_ptr s ! nat i = z_val_count s"
    and run: "rows_loop m X Y (CSR_Matrix.num_rows X) (CCS_Matrix.num_cols Y) i s = (s', fs)"
    and fit: "int (length (z_val s)) < 2147483648"
  shows "z_val_count s'
           = z_val_count s + int (length (emitted_rows m X Y i (CSR_Matrix.num_rows X))) \<and>
         length (z_val s') = length (z_val s) \<and>
         length (z_col_ind s') = length (z_col_ind s) \<and>
         length (z_row_ptr s') = length (z_row_ptr s) \<and>
         take (nat (z_val_count s')) (z_val s')
           = take (nat (z_val_count s)) (z_val s)
             @ map snd (emitted_rows m X Y i (CSR_Matrix.num_rows X)) \<and>
         take (nat (z_val_count s')) (z_col_ind s')
           = take (nat (z_val_count s)) (z_col_ind s)
             @ map fst (emitted_rows m X Y i (CSR_Matrix.num_rows X)) \<and>
         (\<forall>k. 0 \<le> k \<and> k \<le> i \<longrightarrow> z_row_ptr s' ! nat k = z_row_ptr s ! nat k) \<and>
         (\<forall>k. i \<le> k \<and> k \<le> CSR_Matrix.num_rows X \<longrightarrow>
              z_row_ptr s' ! nat k = z_val_count s + int (length (emitted_rows m X Y i k))) \<and>
         set fs \<subseteq> {past_row_ind m Y}"
  using len i cnt here run fit
proof (induction "nat (CSR_Matrix.num_rows X - i)" arbitrary: i s s' fs rule: less_induct)
  case less
  let ?rows = "CSR_Matrix.num_rows X"
  let ?cols = "CCS_Matrix.num_cols Y"
  have cols0: "0 \<le> ?cols" using Y by (simp add: wf_CCS_def)
  show ?case
  proof (cases "i < ?rows")
    case False
    then have "rows_loop m X Y ?rows ?cols i s = (s, [])"
      by (subst rows_loop.simps) simp
    with less.prems(8) have res: "s' = s" "fs = []" by simp_all
    have "i = ?rows" using False less.prems(4) by simp
    then show ?thesis
      using less.prems(7) by (auto simp: res emitted_rows_empty)
  next
    case True
    let ?em = "emitted m X Y i 0"
    obtain s1 c f1 where cl: "cols_loop m X Y ?cols i 0 s 0 = (s1, c, f1)"
      by (cases "cols_loop m X Y ?cols i 0 s 0") auto
    have split: "(?rows - i) * ?cols = ?cols + (?rows - (i + 1)) * ?cols"
      by (simp add: algebra_simps)
    have rest0: "0 \<le> (?rows - (i + 1)) * ?cols"
      using True cols0 by simp
    have room: "z_val_count s + (?cols - 0) \<le> int (length (z_val s))"
      using less.prems(6) split rest0 by simp
    have z0: "(0::int) \<le> 0" by simp
    from cols_loop_spec [OF X Y less.prems(3) True less.prems(1) z0 cols0 less.prems(5) room cl
        less.prems(9) z0 less.prems(5)]
    have c1: "z_val_count s1 = z_val_count s + int (length ?em)"
      and c: "c = 0 + int (length ?em)"
      and l1: "length (z_val s1) = length (z_val s)" "length (z_col_ind s1) = length (z_col_ind s)"
              "z_row_ptr s1 = z_row_ptr s"
      and t1: "take (nat (z_val_count s1)) (z_val s1)
                 = take (nat (z_val_count s)) (z_val s) @ map snd ?em"
      and t2: "take (nat (z_val_count s1)) (z_col_ind s1)
                 = take (nat (z_val_count s)) (z_col_ind s) @ map fst ?em"
      and f1: "set f1 \<subseteq> {past_row_ind m Y}"
      by blast+
    define s2 where "s2 = s1\<lparr>z_row_ptr := (z_row_ptr s)[nat (i + 1) :=
                                z_val_count s + int (length ?em)]\<rparr>"
    have s2: "z_val s2 = z_val s1" "z_col_ind s2 = z_col_ind s1"
      "z_val_count s2 = z_val_count s1"
      "z_row_ptr s2 = (z_row_ptr s)[nat (i + 1) := z_val_count s + int (length ?em)]"
      by (simp_all add: s2_def)
    obtain s3 f3 where rec: "rows_loop m X Y ?rows ?cols (i + 1) s2 = (s3, f3)"
      by (cases "rows_loop m X Y ?rows ?cols (i + 1) s2") auto
    have emle: "int (length ?em) \<le> ?cols"
      using length_emitted [of m X Y i 0] cols0 by simp
    have w: "int32 (z_val_count s + int (length ?em)) = z_val_count s + int (length ?em)"
      using room emle less.prems(5,9) by (intro int32_id) simp_all
    have "rows_loop m X Y ?rows ?cols i s = (s3, f1 @ f3)"
      using True less.prems(2,3,7)
      by (subst rows_loop.simps)
         (simp add: cl rd_local_def wr_local_def l1 c c1 w rec [unfolded s2_def])
    with less.prems(8) have res: "s' = s3" "fs = f1 @ f3" by simp_all
    have dec: "nat (?rows - (i + 1)) < nat (?rows - i)" using True by simp
    have "z_val_count s3
            = z_val_count s2 + int (length (emitted_rows m X Y (i + 1) ?rows)) \<and>
          length (z_val s3) = length (z_val s2) \<and>
          length (z_col_ind s3) = length (z_col_ind s2) \<and>
          length (z_row_ptr s3) = length (z_row_ptr s2) \<and>
          take (nat (z_val_count s3)) (z_val s3)
            = take (nat (z_val_count s2)) (z_val s2)
              @ map snd (emitted_rows m X Y (i + 1) ?rows) \<and>
          take (nat (z_val_count s3)) (z_col_ind s3)
            = take (nat (z_val_count s2)) (z_col_ind s2)
              @ map fst (emitted_rows m X Y (i + 1) ?rows) \<and>
          (\<forall>k. 0 \<le> k \<and> k \<le> i + 1 \<longrightarrow> z_row_ptr s3 ! nat k = z_row_ptr s2 ! nat k) \<and>
          (\<forall>k. i + 1 \<le> k \<and> k \<le> ?rows \<longrightarrow>
               z_row_ptr s3 ! nat k
                 = z_val_count s2 + int (length (emitted_rows m X Y (i + 1) k))) \<and>
          set f3 \<subseteq> {past_row_ind m Y}"
    proof (rule less.hyps [OF dec _ _ _ _ _ _ _ rec])
      show "length (z_col_ind s2) = length (z_val s2)"
        using less.prems(1) by (simp add: s2 l1)
      show "int (length (z_row_ptr s2)) = ?rows + 1"
        using less.prems(2) by (simp add: s2)
      show "0 \<le> i + 1" "i + 1 \<le> ?rows" using less.prems(3) True by simp_all
      show "0 \<le> z_val_count s2" using less.prems(5) by (simp add: s2 c1)
      show "z_val_count s2 + (?rows - (i + 1)) * ?cols \<le> int (length (z_val s2))"
        using less.prems(6) emle unfolding split by (simp add: s2 c1 l1)
      show "z_row_ptr s2 ! nat (i + 1) = z_val_count s2"
        using less.prems(2,3) True by (simp add: s2 c1)
      show "int (length (z_val s2)) < 2147483648"
        using less.prems(9) by (simp add: s2 l1)
    qed
    then have c3: "z_val_count s3
            = z_val_count s2 + int (length (emitted_rows m X Y (i + 1) ?rows))"
      and l3: "length (z_val s3) = length (z_val s2)"
          "length (z_col_ind s3) = length (z_col_ind s2)"
          "length (z_row_ptr s3) = length (z_row_ptr s2)"
      and t3: "take (nat (z_val_count s3)) (z_val s3)
            = take (nat (z_val_count s2)) (z_val s2)
              @ map snd (emitted_rows m X Y (i + 1) ?rows)"
      and t4: "take (nat (z_val_count s3)) (z_col_ind s3)
            = take (nat (z_val_count s2)) (z_col_ind s2)
              @ map fst (emitted_rows m X Y (i + 1) ?rows)"
      and before: "\<And>k. 0 \<le> k \<Longrightarrow> k \<le> i + 1 \<Longrightarrow> z_row_ptr s3 ! nat k = z_row_ptr s2 ! nat k"
      and after: "\<And>k. i + 1 \<le> k \<Longrightarrow> k \<le> ?rows \<Longrightarrow>
               z_row_ptr s3 ! nat k
                 = z_val_count s2 + int (length (emitted_rows m X Y (i + 1) k))"
      and f3: "set f3 \<subseteq> {past_row_ind m Y}"
      by blast+
    have old: "z_row_ptr s3 ! nat k = z_row_ptr s ! nat k" if "0 \<le> k" "k \<le> i" for k
    proof -
      have "z_row_ptr s3 ! nat k = z_row_ptr s2 ! nat k"
        using that by (intro before) auto
      also have "\<dots> = z_row_ptr s ! nat k"
        using that less.prems(3) by (simp add: s2)
      finally show ?thesis .
    qed
    have new: "z_row_ptr s3 ! nat k = z_val_count s + int (length (emitted_rows m X Y i k))"
      if "i \<le> k" "k \<le> ?rows" for k
    proof (cases "k = i")
      case True
      then show ?thesis
        using old [of i] less.prems(3,7) by (simp add: emitted_rows_empty)
    next
      case False
      then have "i < k" using that by simp
      then show ?thesis
        using after [of k] that by (simp add: s2 c1 emitted_rows_step)
    qed
    have er: "emitted_rows m X Y i ?rows = ?em @ emitted_rows m X Y (i + 1) ?rows"
      using True by (rule emitted_rows_step)
    show ?thesis
      unfolding res t3 t4 s2 t1 t2 er
      using c3 l3 f1 f3 old new
      by (intro conjI) (simp_all add: s2 c1 l1)
  qed
qed

lemma length_vla: "length (vla m pl n) = nat n"
  by (simp add: vla_def)

lemma multiply_scratch_spec:
  assumes X: "wf_CSR m X" and Y: "wf_CCS m Y"
    and fit: "sizes_fit X Y"
    and run: "multiply_scratch m X Y = Inr (s, fs)"
  shows "z_val_count s = int (length (emitted_rows m X Y 0 (CSR_Matrix.num_rows X)))"
    and "int (length (z_val s)) = CSR_Matrix.num_rows X * CCS_Matrix.num_cols Y"
    and "int (length (z_col_ind s)) = CSR_Matrix.num_rows X * CCS_Matrix.num_cols Y"
    and "int (length (z_row_ptr s)) = CSR_Matrix.num_rows X + 1"
    and "take (nat (z_val_count s)) (z_val s)
           = map snd (emitted_rows m X Y 0 (CSR_Matrix.num_rows X))"
    and "take (nat (z_val_count s)) (z_col_ind s)
           = map fst (emitted_rows m X Y 0 (CSR_Matrix.num_rows X))"
    and "\<And>k. 0 \<le> k \<Longrightarrow> k \<le> CSR_Matrix.num_rows X \<Longrightarrow>
           z_row_ptr s ! nat k = int (length (emitted_rows m X Y 0 k))"
    and "set fs \<subseteq> {past_row_ind m Y}"
proof -
  let ?rows = "CSR_Matrix.num_rows X"
  let ?cols = "CCS_Matrix.num_cols Y"
  have rows0: "0 \<le> ?rows" using X by (simp add: wf_CSR_def)
  have cols0: "0 \<le> ?cols" using Y by (simp add: wf_CCS_def)
  have rc: "0 \<le> ?rows * ?cols" using rows0 cols0 by simp
  define s0 where "s0 = \<lparr>z_val = vla m Z_val (?rows * ?cols),
      z_col_ind = vla m Z_col_ind (?rows * ?cols),
      z_row_ptr = (vla m Z_row_ptr (?rows + 1))[0 := 0], z_val_count = 0\<rparr>"
  have s0: "length (z_col_ind s0) = length (z_val s0)"
    "int (length (z_val s0)) = ?rows * ?cols"
    "int (length (z_row_ptr s0)) = ?rows + 1" "z_val_count s0 = 0"
    "z_row_ptr s0 ! nat 0 = z_val_count s0"
    using rows0 rc by (simp_all add: s0_def length_vla)
  obtain s1 f1 where rec: "rows_loop m X Y ?rows ?cols 0 s0 = (s1, f1)"
    by (cases "rows_loop m X Y ?rows ?cols 0 s0") auto
  have ne: "vla m Z_row_ptr (?rows + 1) \<noteq> []"
    using rows0 by (simp add: vla_def)
  have w1: "int32 (?rows * ?cols) = ?rows * ?cols"
    using rc fit by (intro int32_id) (simp_all add: sizes_fit_def)
  have w2: "int32 (?rows + 1) = ?rows + 1"
    using rows0 fit by (intro int32_id) (simp_all add: sizes_fit_def)
  have "multiply_scratch m X Y = Inr (s1, f1)"
    using rows0 rc ne
    by (simp add: multiply_scratch_def Let_def wr_local_def length_vla w1 w2
          rec [unfolded s0_def])
  with run have res: "s = s1" "fs = f1" by simp_all
  have fit0: "int (length (z_val s0)) < 2147483648"
    using fit by (simp add: s0 sizes_fit_def)
  have z0: "(0::int) \<le> 0" by simp
  have c0: "0 \<le> z_val_count s0" by (simp add: s0)
  have room: "z_val_count s0 + (?rows - 0) * ?cols \<le> int (length (z_val s0))"
    by (simp add: s0)
  from rows_loop_spec [OF X Y s0(1,3) z0 rows0 c0 room s0(5) rec fit0]
  have c: "z_val_count s1 = z_val_count s0 + int (length (emitted_rows m X Y 0 ?rows))"
    and l: "length (z_val s1) = length (z_val s0)" "length (z_col_ind s1) = length (z_col_ind s0)"
      "length (z_row_ptr s1) = length (z_row_ptr s0)"
    and t1: "take (nat (z_val_count s1)) (z_val s1)
               = take (nat (z_val_count s0)) (z_val s0) @ map snd (emitted_rows m X Y 0 ?rows)"
    and t2: "take (nat (z_val_count s1)) (z_col_ind s1)
               = take (nat (z_val_count s0)) (z_col_ind s0) @ map fst (emitted_rows m X Y 0 ?rows)"
    and after: "\<And>k. 0 \<le> k \<Longrightarrow> k \<le> ?rows \<Longrightarrow>
               z_row_ptr s1 ! nat k = z_val_count s0 + int (length (emitted_rows m X Y 0 k))"
    and f: "set f1 \<subseteq> {past_row_ind m Y}"
    by blast+
  show "z_val_count s = int (length (emitted_rows m X Y 0 ?rows))"
    using c by (simp add: res s0)
  show "int (length (z_val s)) = ?rows * ?cols" using l s0 by (simp add: res)
  show "int (length (z_col_ind s)) = ?rows * ?cols" using l s0 by (simp add: res)
  show "int (length (z_row_ptr s)) = ?rows + 1" using l s0 by (simp add: res)
  show "take (nat (z_val_count s)) (z_val s) = map snd (emitted_rows m X Y 0 ?rows)"
    unfolding res t1 by (simp add: s0)
  show "take (nat (z_val_count s)) (z_col_ind s) = map fst (emitted_rows m X Y 0 ?rows)"
    unfolding res t2 by (simp add: s0)
  show "z_row_ptr s ! nat k = int (length (emitted_rows m X Y 0 k))"
    if "0 \<le> k" "k \<le> ?rows" for k
    using after [OF that] by (simp add: res s0)
  show "set fs \<subseteq> {past_row_ind m Y}" using f by (simp add: res)
qed

lemma sizes_fit_int32:
  assumes "0 \<le> CSR_Matrix.num_rows X" and "0 \<le> CCS_Matrix.num_cols Y" and "sizes_fit X Y"
  shows "int32 (CSR_Matrix.num_rows X * CCS_Matrix.num_cols Y)
           = CSR_Matrix.num_rows X * CCS_Matrix.num_cols Y"
    and "int32 (CSR_Matrix.num_rows X + 1) = CSR_Matrix.num_rows X + 1"
proof -
  have "0 \<le> CSR_Matrix.num_rows X * CCS_Matrix.num_cols Y" using assms(1,2) by simp
  then show "int32 (CSR_Matrix.num_rows X * CCS_Matrix.num_cols Y)
           = CSR_Matrix.num_rows X * CCS_Matrix.num_cols Y"
    using assms(3) by (intro int32_id) (simp_all add: sizes_fit_def)
  show "int32 (CSR_Matrix.num_rows X + 1) = CSR_Matrix.num_rows X + 1"
    using assms(1,3) by (intro int32_id) (simp_all add: sizes_fit_def)
qed

lemma multiply_scratch_returns:
  assumes X: "wf_CSR m X" and Y: "wf_CCS m Y" and fit: "sizes_fit X Y"
  shows "\<exists>s fs. multiply_scratch m X Y = Inr (s, fs)"
proof -
  have rows0: "0 \<le> CSR_Matrix.num_rows X" using X by (simp add: wf_CSR_def)
  have cols0: "0 \<le> CCS_Matrix.num_cols Y" using Y by (simp add: wf_CCS_def)
  note w = sizes_fit_int32 [OF rows0 cols0 fit]
  have rc: "\<not> CSR_Matrix.num_rows X * CCS_Matrix.num_cols Y < 0"
    using rows0 cols0 by (simp add: not_less)
  show ?thesis
    using rows0 rc
    by (simp add: multiply_scratch_def Let_def w split: prod.splits)
qed

lemma drop_take_step:
  "n < k \<Longrightarrow> k \<le> length xs \<Longrightarrow> drop n (take k xs) = xs ! n # drop (Suc n) (take k xs)"
  by (metis Cons_nth_drop_Suc length_take min.absorb2 nth_take)

lemma fill_val_spec:
  assumes "CSR_Matrix.val Z < length (blocks m)" and "col_ind Z < length (blocks m)"
    and "CSR_Matrix.val Z \<noteq> col_ind Z"
    and "int (length (blocks m ! CSR_Matrix.val Z)) = z_val_count s"
    and "int (length (blocks m ! col_ind Z)) = z_val_count s"
    and "z_val_count s \<le> int (length (z_val s))"
    and "z_val_count s \<le> int (length (z_col_ind s))"
    and "0 \<le> i" and "i \<le> z_val_count s"
    and "fill_val m Z s i = (m', fs)"
  shows "fs = [] \<and> stray m' = stray m \<and> length (blocks m') = length (blocks m) \<and>
         (\<forall>p. p \<noteq> CSR_Matrix.val Z \<and> p \<noteq> col_ind Z \<longrightarrow> blocks m' ! p = blocks m ! p) \<and>
         blocks m' ! CSR_Matrix.val Z
           = take (nat i) (blocks m ! CSR_Matrix.val Z)
             @ drop (nat i) (take (nat (z_val_count s)) (z_val s)) \<and>
         blocks m' ! col_ind Z
           = take (nat i) (blocks m ! col_ind Z)
             @ drop (nat i) (take (nat (z_val_count s)) (z_col_ind s))"
  using assms(1,2,4,5,8,9,10)
proof (induction "nat (z_val_count s - i)" arbitrary: i m m' fs rule: less_induct)
  case less
  let ?n = "z_val_count s"
  let ?v = "CSR_Matrix.val Z"
  let ?c = "col_ind Z"
  show ?case
  proof (cases "i < ?n")
    case False
    then have "fill_val m Z s i = (m, [])" by (subst fill_val.simps) simp
    with less.prems(7) have res: "m' = m" "fs = []" by simp_all
    have "i = ?n" using False less.prems(6) by simp
    then show ?thesis using less.prems(3,4) by (simp add: res)
  next
    case True
    define m2 where "m2 = m\<lparr>blocks := (blocks m)[?v := (blocks m ! ?v)[nat i := z_val s ! nat i],
                                 ?c := (blocks m ! ?c)[nat i := z_col_ind s ! nat i]]\<rparr>"
    have b2: "blocks m2 = (blocks m)[?v := (blocks m ! ?v)[nat i := z_val s ! nat i],
                                 ?c := (blocks m ! ?c)[nat i := z_col_ind s ! nat i]]"
      and st2: "stray m2 = stray m"
      by (simp_all add: m2_def)
    have v2: "blocks m2 ! ?v = (blocks m ! ?v)[nat i := z_val s ! nat i]"
      using assms(3) less.prems(1) by (simp add: b2)
    have c2: "blocks m2 ! ?c = (blocks m ! ?c)[nat i := z_col_ind s ! nat i]"
      using less.prems(2) by (simp add: b2)
    have other: "blocks m2 ! p = blocks m ! p" if "p \<noteq> ?v" "p \<noteq> ?c" for p
      using that by (simp add: b2)
    have len2: "length (blocks m2) = length (blocks m)" by (simp add: b2)
    obtain m3 f3 where rec: "fill_val m2 Z s (i + 1) = (m3, f3)"
      by (cases "fill_val m2 Z s (i + 1)") auto
    have "fill_val m Z s i = (m3, f3)"
      using True less.prems(1,2,3,4,5) assms(3,6,7)
      by (subst fill_val.simps)
         (simp add: rd_local_def wr_def rec [unfolded m2_def])
    with less.prems(7) have res: "m' = m3" "fs = f3" by simp_all
    have dec: "nat (?n - (i + 1)) < nat (?n - i)" using True by simp
    have "f3 = [] \<and> stray m3 = stray m2 \<and> length (blocks m3) = length (blocks m2) \<and>
          (\<forall>p. p \<noteq> ?v \<and> p \<noteq> ?c \<longrightarrow> blocks m3 ! p = blocks m2 ! p) \<and>
          blocks m3 ! ?v = take (nat (i + 1)) (blocks m2 ! ?v)
             @ drop (nat (i + 1)) (take (nat ?n) (z_val s)) \<and>
          blocks m3 ! ?c = take (nat (i + 1)) (blocks m2 ! ?c)
             @ drop (nat (i + 1)) (take (nat ?n) (z_col_ind s))"
      by (rule less.hyps [OF dec _ _ _ _ _ _ rec])
         (use less.prems True in \<open>simp_all add: len2 v2 c2\<close>)
    then have f3: "f3 = []" and st3: "stray m3 = stray m2"
      and len3: "length (blocks m3) = length (blocks m2)"
      and o3: "\<And>p. p \<noteq> ?v \<Longrightarrow> p \<noteq> ?c \<Longrightarrow> blocks m3 ! p = blocks m2 ! p"
      and v3: "blocks m3 ! ?v = take (nat (i + 1)) (blocks m2 ! ?v)
             @ drop (nat (i + 1)) (take (nat ?n) (z_val s))"
      and c3: "blocks m3 ! ?c = take (nat (i + 1)) (blocks m2 ! ?c)
             @ drop (nat (i + 1)) (take (nat ?n) (z_col_ind s))"
      by blast+
    have suc: "nat (i + 1) = Suc (nat i)" using less.prems(5) by simp
    have iv: "nat i < length (blocks m ! ?v)" "nat i < length (blocks m ! ?c)"
      using True less.prems(3,4,5) by linarith+
    have dv: "drop (nat i) (take (nat ?n) (z_val s))
                = z_val s ! nat i # drop (Suc (nat i)) (take (nat ?n) (z_val s))"
      using True less.prems(5) assms(6) by (intro drop_take_step) linarith+
    have dc: "drop (nat i) (take (nat ?n) (z_col_ind s))
                = z_col_ind s ! nat i # drop (Suc (nat i)) (take (nat ?n) (z_col_ind s))"
      using True less.prems(5) assms(7) by (intro drop_take_step) linarith+
    show ?thesis
      unfolding res v3 c3 v2 c2 suc dv dc
      using f3 st3 len3 o3 other iv
      by (intro conjI) (simp_all add: st2 len2 take_Suc_update)
  qed
qed

lemma fill_row_ptr_spec:
  assumes "row_ptr Z < length (blocks m)"
    and "int (length (blocks m ! row_ptr Z)) = z_rows + 1"
    and "int (length (z_row_ptr s)) = z_rows + 1"
    and "0 \<le> i" and "i \<le> z_rows + 1"
    and "fill_row_ptr m Z s z_rows i = (m', fs)"
    and w: "int32 (z_rows + 1) = z_rows + 1"
  shows "fs = [] \<and> stray m' = stray m \<and> length (blocks m') = length (blocks m) \<and>
         (\<forall>p. p \<noteq> row_ptr Z \<longrightarrow> blocks m' ! p = blocks m ! p) \<and>
         blocks m' ! row_ptr Z
           = take (nat i) (blocks m ! row_ptr Z) @ drop (nat i) (z_row_ptr s)"
  using assms(1,2,4,5,6)
proof (induction "nat (z_rows + 1 - i)" arbitrary: i m m' fs rule: less_induct)
  case less
  let ?r = "row_ptr Z"
  show ?case
  proof (cases "i < z_rows + 1")
    case False
    then have "fill_row_ptr m Z s z_rows i = (m, [])"
      by (subst fill_row_ptr.simps) (simp add: w)
    with less.prems(5) have res: "m' = m" "fs = []" by simp_all
    have "i = z_rows + 1" using False less.prems(4) by simp
    then show ?thesis using less.prems(2) assms(3) by (simp add: res)
  next
    case True
    define m1 where "m1 = m\<lparr>blocks := (blocks m)[?r := (blocks m ! ?r)[nat i := z_row_ptr s ! nat i]]\<rparr>"
    have b1: "blocks m1 = (blocks m)[?r := (blocks m ! ?r)[nat i := z_row_ptr s ! nat i]]"
      and st1: "stray m1 = stray m"
      by (simp_all add: m1_def)
    have r1: "blocks m1 ! ?r = (blocks m ! ?r)[nat i := z_row_ptr s ! nat i]"
      using less.prems(1) by (simp add: b1)
    have other: "blocks m1 ! p = blocks m ! p" if "p \<noteq> ?r" for p
      using that by (simp add: b1)
    have len1: "length (blocks m1) = length (blocks m)" by (simp add: b1)
    obtain m3 f3 where rec: "fill_row_ptr m1 Z s z_rows (i + 1) = (m3, f3)"
      by (cases "fill_row_ptr m1 Z s z_rows (i + 1)") auto
    have "fill_row_ptr m Z s z_rows i = (m3, f3)"
      using True less.prems(1,2,3) assms(3)
      by (subst fill_row_ptr.simps)
         (simp add: w rd_local_def wr_def rec [unfolded m1_def])
    with less.prems(5) have res: "m' = m3" "fs = f3" by simp_all
    have dec: "nat (z_rows + 1 - (i + 1)) < nat (z_rows + 1 - i)" using True by simp
    have "f3 = [] \<and> stray m3 = stray m1 \<and> length (blocks m3) = length (blocks m1) \<and>
          (\<forall>p. p \<noteq> ?r \<longrightarrow> blocks m3 ! p = blocks m1 ! p) \<and>
          blocks m3 ! ?r = take (nat (i + 1)) (blocks m1 ! ?r) @ drop (nat (i + 1)) (z_row_ptr s)"
      by (rule less.hyps [OF dec _ _ _ _ rec])
         (use less.prems True in \<open>simp_all add: len1 r1\<close>)
    then have f3: "f3 = []" and st3: "stray m3 = stray m1"
      and len3: "length (blocks m3) = length (blocks m1)"
      and o3: "\<And>p. p \<noteq> ?r \<Longrightarrow> blocks m3 ! p = blocks m1 ! p"
      and r3: "blocks m3 ! ?r
                 = take (nat (i + 1)) (blocks m1 ! ?r) @ drop (nat (i + 1)) (z_row_ptr s)"
      by blast+
    have suc: "nat (i + 1) = Suc (nat i)" using less.prems(3) by simp
    have ir: "nat i < length (blocks m ! ?r)" "nat i < length (z_row_ptr s)"
      using True less.prems(2,3) assms(3) by linarith+
    have dr: "drop (nat i) (z_row_ptr s) = z_row_ptr s ! nat i # drop (Suc (nat i)) (z_row_ptr s)"
      using ir(2) by (simp add: Cons_nth_drop_Suc)
    show ?thesis
      unfolding res r3 r1 suc dr
      using f3 st3 len3 o3 other ir
      by (intro conjI) (simp_all add: st1 len1 take_Suc_update)
  qed
qed

section \<open>The whole call\<close>

lemma init_CSR_matrix_spec:
  assumes "0 \<le> n" and "0 \<le> r + 1" and "int32 (r + 1) = r + 1"
  shows "\<exists>B1 B2 B3.
           init_CSR_matrix m n r c
             = Inr (\<lparr>CSR_Matrix.val = length (blocks m), col_ind = Suc (length (blocks m)),
                     row_ptr = Suc (Suc (length (blocks m))), num_rows = r, num_cols = c\<rparr>,
                    m\<lparr>blocks := blocks m @ [B1, B2, B3]\<rparr>) \<and>
           length B1 = nat n \<and> length B2 = nat n \<and> length B3 = nat (r + 1)"
proof -
  let ?B1 = "vla m (Heap (length (blocks m))) n"
  let ?m1 = "m\<lparr>blocks := blocks m @ [?B1]\<rparr>"
  let ?B2 = "vla ?m1 (Heap (Suc (length (blocks m)))) n"
  let ?m2 = "m\<lparr>blocks := blocks m @ [?B1, ?B2]\<rparr>"
  let ?B3 = "vla ?m2 (Heap (Suc (Suc (length (blocks m))))) (r + 1)"
  have "init_CSR_matrix m n r c
          = Inr (\<lparr>CSR_Matrix.val = length (blocks m), col_ind = Suc (length (blocks m)),
                  row_ptr = Suc (Suc (length (blocks m))), num_rows = r, num_cols = c\<rparr>,
                 m\<lparr>blocks := blocks m @ [?B1, ?B2, ?B3]\<rparr>)"
    using assms by (simp add: init_CSR_matrix_def Malloc_def)
  moreover have "length ?B1 = nat n" "length ?B2 = nat n" "length ?B3 = nat (r + 1)"
    by (simp_all add: length_vla)
  ultimately show ?thesis by blast
qed

lemma row_ptr_list:
  assumes "int (length rp) = rows + 1"
    and "\<And>k. 0 \<le> k \<Longrightarrow> k \<le> rows \<Longrightarrow> rp ! nat k = f k"
  shows "rp = map f [0..rows]"
proof (rule nth_equalityI)
  show "length rp = length (map f [0..rows])" using assms(1) by simp
  fix i assume "i < length rp"
  then have i: "int i \<le> rows" using assms(1) by simp
  then have "[0..rows] ! i = int i" by (simp add: nth_upto)
  moreover have "i < length [0..rows]" using i by simp
  ultimately have "map f [0..rows] ! i = f (int i)" by simp
  moreover have "rp ! nat (int i) = f (int i)" using i by (intro assms(2)) auto
  ultimately show "rp ! i = map f [0..rows] ! i" by simp
qed

lemma run_spec:
  assumes X: "wf_CSR m X" and Y: "wf_CCS m Y"
    and compat: "CSR_Matrix.num_cols X = CCS_Matrix.num_rows Y"
    and fit: "sizes_fit X Y"
  shows "ret (sparse_matrix_multiply m X Y)
           = Inr \<lparr>CSR_Matrix.val = length (blocks m), col_ind = Suc (length (blocks m)),
                  row_ptr = Suc (Suc (length (blocks m))), num_rows = CSR_Matrix.num_rows X,
                  num_cols = CCS_Matrix.num_cols Y\<rparr>"
    and "blocks (mem (sparse_matrix_multiply m X Y))
           = blocks m @
             [map snd (emitted_rows m X Y 0 (CSR_Matrix.num_rows X)),
              map fst (emitted_rows m X Y 0 (CSR_Matrix.num_rows X)),
              map (\<lambda>k. int (length (emitted_rows m X Y 0 k))) [0..CSR_Matrix.num_rows X]]"
    and "stray (mem (sparse_matrix_multiply m X Y)) = stray m"
    and "set (faults (sparse_matrix_multiply m X Y)) \<subseteq> {past_row_ind m Y}"
proof -
  let ?rows = "CSR_Matrix.num_rows X"
  let ?cols = "CCS_Matrix.num_cols Y"
  let ?E = "emitted_rows m X Y 0 ?rows"
  let ?L = "length (blocks m)"
  let ?Z = "\<lparr>CSR_Matrix.val = ?L, col_ind = Suc ?L, row_ptr = Suc (Suc ?L),
             num_rows = ?rows, num_cols = ?cols\<rparr>"
  have rows0: "0 \<le> ?rows" using X by (simp add: wf_CSR_def)
  have cols0: "0 \<le> ?cols" using Y by (simp add: wf_CCS_def)
  note w = sizes_fit_int32 [OF rows0 cols0 fit]
  obtain s f1 where ms: "multiply_scratch m X Y = Inr (s, f1)"
    using multiply_scratch_returns [OF X Y fit] by blast
  note sc = multiply_scratch_spec [OF X Y fit ms]
  have cnt: "z_val_count s = int (length ?E)" by (rule sc(1))
  have rp: "z_row_ptr s = map (\<lambda>k. int (length (emitted_rows m X Y 0 k))) [0..?rows]"
    using sc(4) sc(7) by (rule row_ptr_list)
  have le: "z_val_count s \<le> int (length (z_val s))" "z_val_count s \<le> int (length (z_col_ind s))"
  proof -
    have "length (take (nat (z_val_count s)) (z_val s)) = length ?E"
      unfolding sc(5) by simp
    then show "z_val_count s \<le> int (length (z_val s))" using cnt by simp
    then show "z_val_count s \<le> int (length (z_col_ind s))" using sc(2,3) by simp
  qed
  obtain B1 B2 B3 where
    init: "init_CSR_matrix m (z_val_count s) ?rows ?cols
             = Inr (?Z, m\<lparr>blocks := blocks m @ [B1, B2, B3]\<rparr>)"
    and lb: "length B1 = nat (z_val_count s)" "length B2 = nat (z_val_count s)"
            "length B3 = nat (?rows + 1)"
    using init_CSR_matrix_spec [of "z_val_count s" ?rows m ?cols] cnt rows0 w(2) by auto
  define m1 where "m1 = m\<lparr>blocks := blocks m @ [B1, B2, B3]\<rparr>"
  have b1: "blocks m1 = blocks m @ [B1, B2, B3]" and st1: "stray m1 = stray m"
    by (simp_all add: m1_def)
  have len1: "length (blocks m1) = Suc (Suc (Suc ?L))" by (simp add: b1)
  have nth1: "blocks m1 ! ?L = B1" "blocks m1 ! (Suc ?L) = B2" "blocks m1 ! (Suc (Suc ?L)) = B3"
    by (simp_all add: b1 nth_append)
  obtain m2 f2 where fv: "fill_val m1 ?Z s 0 = (m2, f2)"
    by (cases "fill_val m1 ?Z s 0") auto
  have "f2 = [] \<and> stray m2 = stray m1 \<and> length (blocks m2) = length (blocks m1) \<and>
        (\<forall>p. p \<noteq> CSR_Matrix.val ?Z \<and> p \<noteq> col_ind ?Z \<longrightarrow> blocks m2 ! p = blocks m1 ! p) \<and>
        blocks m2 ! CSR_Matrix.val ?Z
          = take (nat 0) (blocks m1 ! CSR_Matrix.val ?Z)
            @ drop (nat 0) (take (nat (z_val_count s)) (z_val s)) \<and>
        blocks m2 ! col_ind ?Z
          = take (nat 0) (blocks m1 ! col_ind ?Z)
            @ drop (nat 0) (take (nat (z_val_count s)) (z_col_ind s))"
    by (rule fill_val_spec [OF _ _ _ _ _ le _ _ fv])
       (use cnt lb in \<open>simp_all add: b1 nth_append\<close>)
  then have f2: "f2 = []" and st2: "stray m2 = stray m1"
    and len2: "length (blocks m2) = length (blocks m1)"
    and o2: "\<And>p. p \<noteq> ?L \<Longrightarrow> p \<noteq> Suc ?L \<Longrightarrow> blocks m2 ! p = blocks m1 ! p"
    and v2: "blocks m2 ! ?L = map snd ?E"
    and c2: "blocks m2 ! (Suc ?L) = map fst ?E"
    by (simp_all add: sc(5,6))
  obtain m3 f3 where fr: "fill_row_ptr m2 ?Z s ?rows 0 = (m3, f3)"
    by (cases "fill_row_ptr m2 ?Z s ?rows 0") auto
  have "f3 = [] \<and> stray m3 = stray m2 \<and> length (blocks m3) = length (blocks m2) \<and>
        (\<forall>p. p \<noteq> row_ptr ?Z \<longrightarrow> blocks m3 ! p = blocks m2 ! p) \<and>
        blocks m3 ! row_ptr ?Z
          = take (nat 0) (blocks m2 ! row_ptr ?Z) @ drop (nat 0) (z_row_ptr s)"
    by (rule fill_row_ptr_spec [OF _ _ sc(4) _ _ fr w(2)])
       (use rows0 lb in \<open>simp_all add: len2 len1 o2 nth1\<close>)
  then have f3: "f3 = []" and st3: "stray m3 = stray m2"
    and len3: "length (blocks m3) = length (blocks m2)"
    and o3: "\<And>p. p \<noteq> Suc (Suc ?L) \<Longrightarrow> blocks m3 ! p = blocks m2 ! p"
    and r3: "blocks m3 ! (Suc (Suc ?L)) = z_row_ptr s"
    by simp_all
  have res: "sparse_matrix_multiply m X Y = \<lparr>ret = Inr ?Z, mem = m3, faults = f1\<rparr>"
    using compat
    by (simp add: sparse_matrix_multiply_def ms init fv [unfolded m1_def] fr f2 f3)
  show "ret (sparse_matrix_multiply m X Y) = Inr ?Z" by (simp add: res)
  show "stray (mem (sparse_matrix_multiply m X Y)) = stray m"
    by (simp add: res st3 st2 st1)
  show "set (faults (sparse_matrix_multiply m X Y)) \<subseteq> {past_row_ind m Y}"
    using sc(8) by (simp add: res)
  have "blocks m3 = blocks m @ [map snd ?E, map fst ?E, z_row_ptr s]"
  proof (rule nth_equalityI)
    show "length (blocks m3) = length (blocks m @ [map snd ?E, map fst ?E, z_row_ptr s])"
      by (simp add: len3 len2 b1)
    fix p assume "p < length (blocks m3)"
    then have p: "p < ?L + 3" by (simp add: len3 len2 b1)
    consider "p < ?L" | "p = ?L" | "p = Suc ?L" | "p = Suc (Suc ?L)" using p by linarith
    then show "blocks m3 ! p = (blocks m @ [map snd ?E, map fst ?E, z_row_ptr s]) ! p"
    proof cases
      case 1
      then have "blocks m3 ! p = blocks m1 ! p" by (simp add: o3 o2)
      then show ?thesis using 1 by (simp add: b1 nth_append)
    next
      case 2
      then show ?thesis by (simp add: o3 v2 nth_append)
    next
      case 3
      then show ?thesis by (simp add: o3 c2 nth_append)
    next
      case 4
      then show ?thesis by (simp add: r3 nth_append)
    qed
  qed
  then show "blocks (mem (sparse_matrix_multiply m X Y))
           = blocks m @ [map snd ?E, map fst ?E,
               map (\<lambda>k. int (length (emitted_rows m X Y 0 k))) [0..?rows]]"
    by (simp add: res rp)
qed

lemma emitted_rows_append:
  assumes "a \<le> b" and "b \<le> c"
  shows "emitted_rows m X Y a c = emitted_rows m X Y a b @ emitted_rows m X Y b c"
proof (cases "b = c")
  case True
  then show ?thesis by (simp add: emitted_rows_empty)
next
  case False
  then have "[a..c - 1] = [a..b - 1] @ [b..c - 1]"
    using assms by (intro upto_split1) auto
  then show ?thesis by (simp add: emitted_rows_def)
qed

lemma slice_middle:
  "slice (as @ bs @ cs) (int (length as)) (int (length as + length bs)) = bs"
  by (simp add: slice_def)

lemma map_of_tabulate_filter:
  "map_of (map (\<lambda>k. (k, g k)) (filter P ks)) j
     = (if j \<in> set ks \<and> P j then Some (g j) else None)"
  by (induction ks) auto

lemma entry_emitted:
  "entry (emitted m X Y i 0) j
     = (if 0 \<le> j \<and> j < CCS_Matrix.num_cols Y then computed_dot m X Y i j else 0)"
  by (auto simp: entry_def emitted_def map_of_tabulate_filter)

lemma fst_emitted:
  "map fst (emitted m X Y i j)
     = filter (\<lambda>k. computed_dot m X Y i k \<noteq> 0) [j..CCS_Matrix.num_cols Y - 1]"
  by (simp add: emitted_def comp_def)

lemma emitted_nonzero: "(k, v) \<in> set (emitted m X Y i j) \<Longrightarrow> v \<noteq> 0"
  by (auto simp: emitted_def signed_eq_0_iff)

lemma emitted_rows_nonzero: "(k, v) \<in> set (emitted_rows m X Y a b) \<Longrightarrow> v \<noteq> 0"
  by (auto simp: emitted_rows_def dest: emitted_nonzero)

lemma emitted_rows_cols:
  "(k, v) \<in> set (emitted_rows m X Y a b) \<Longrightarrow> 0 \<le> k \<and> k < CCS_Matrix.num_cols Y"
  by (auto simp: emitted_rows_def emitted_def)

text \<open>The arrays of the result: row \<open>i\<close> of the output holds what was emitted for it.\<close>

lemma result_blocks:
  assumes X: "wf_CSR m X" and Y: "wf_CCS m Y"
    and compat: "CSR_Matrix.num_cols X = CCS_Matrix.num_rows Y"
    and fit: "sizes_fit X Y"
    and Z: "ret (sparse_matrix_multiply m X Y) = Inr Z"
  shows "blocks (mem (sparse_matrix_multiply m X Y)) ! CSR_Matrix.val Z
           = map snd (emitted_rows m X Y 0 (CSR_Matrix.num_rows X))"
    and "blocks (mem (sparse_matrix_multiply m X Y)) ! col_ind Z
           = map fst (emitted_rows m X Y 0 (CSR_Matrix.num_rows X))"
    and "blocks (mem (sparse_matrix_multiply m X Y)) ! row_ptr Z
           = map (\<lambda>k. int (length (emitted_rows m X Y 0 k))) [0..CSR_Matrix.num_rows X]"
    and "CSR_Matrix.val Z = length (blocks m)" and "col_ind Z = Suc (length (blocks m))"
    and "row_ptr Z = Suc (Suc (length (blocks m)))"
    and "CSR_Matrix.num_rows Z = CSR_Matrix.num_rows X"
    and "CSR_Matrix.num_cols Z = CCS_Matrix.num_cols Y"
    and "length (blocks (mem (sparse_matrix_multiply m X Y))) = length (blocks m) + 3"
proof -
  note rs = run_spec [OF X Y compat fit]
  from rs(1) Z show z: "CSR_Matrix.val Z = length (blocks m)" "col_ind Z = Suc (length (blocks m))"
    "row_ptr Z = Suc (Suc (length (blocks m)))"
    "CSR_Matrix.num_rows Z = CSR_Matrix.num_rows X"
    "CSR_Matrix.num_cols Z = CCS_Matrix.num_cols Y"
    by auto
  show "blocks (mem (sparse_matrix_multiply m X Y)) ! CSR_Matrix.val Z
           = map snd (emitted_rows m X Y 0 (CSR_Matrix.num_rows X))"
    unfolding rs(2) z by (simp add: nth_append)
  show "blocks (mem (sparse_matrix_multiply m X Y)) ! col_ind Z
           = map fst (emitted_rows m X Y 0 (CSR_Matrix.num_rows X))"
    unfolding rs(2) z by (simp add: nth_append)
  show "blocks (mem (sparse_matrix_multiply m X Y)) ! row_ptr Z
           = map (\<lambda>k. int (length (emitted_rows m X Y 0 k))) [0..CSR_Matrix.num_rows X]"
    unfolding rs(2) z by (simp add: nth_append)
  show "length (blocks (mem (sparse_matrix_multiply m X Y))) = length (blocks m) + 3"
    unfolding rs(2) by simp
qed

lemma result_row_slice:
  assumes X: "wf_CSR m X" and Y: "wf_CCS m Y"
    and compat: "CSR_Matrix.num_cols X = CCS_Matrix.num_rows Y"
    and fit: "sizes_fit X Y"
    and Z: "ret (sparse_matrix_multiply m X Y) = Inr Z"
    and i: "0 \<le> i" "i < CSR_Matrix.num_rows X"
  shows "row_slice (mem (sparse_matrix_multiply m X Y)) Z i
           (map f (emitted_rows m X Y 0 (CSR_Matrix.num_rows X)))
         = map f (emitted m X Y i 0)"
proof -
  let ?rows = "CSR_Matrix.num_rows X"
  let ?A = "emitted_rows m X Y 0 i"
  let ?B = "emitted m X Y i 0"
  let ?C = "emitted_rows m X Y (i + 1) ?rows"
  note rb = result_blocks [OF X Y compat fit Z]
  have next_row: "emitted_rows m X Y 0 (i + 1) = ?A @ ?B"
    using i(1) by (rule emitted_rows_snoc)
  have "emitted_rows m X Y 0 ?rows = emitted_rows m X Y 0 (i + 1) @ ?C"
    using i by (intro emitted_rows_append) auto
  then have all: "emitted_rows m X Y 0 ?rows = ?A @ ?B @ ?C"
    by (simp add: next_row)
  have lo: "blocks (mem (sparse_matrix_multiply m X Y)) ! row_ptr Z ! nat i = int (length ?A)"
    unfolding rb(3) using i by simp
  have hi: "blocks (mem (sparse_matrix_multiply m X Y)) ! row_ptr Z ! nat (i + 1)
              = int (length ?A + length ?B)"
  proof -
    have "[0..?rows] ! nat (i + 1) = 0 + int (nat (i + 1))"
      using i by (intro nth_upto) auto
    then have "map g [0..?rows] ! nat (i + 1) = g (i + 1)" for g :: "int \<Rightarrow> int"
      using i by simp
    then have "blocks (mem (sparse_matrix_multiply m X Y)) ! row_ptr Z ! nat (i + 1)
                 = int (length (emitted_rows m X Y 0 (i + 1)))"
      unfolding rb(3) .
    also have "\<dots> = int (length ?A + length ?B)"
      by (simp only: next_row length_append)
    finally show ?thesis .
  qed
  have "slice (map f ?A @ map f ?B @ map f ?C)
          (int (length (map f ?A))) (int (length (map f ?A) + length (map f ?B))) = map f ?B"
    by (rule slice_middle)
  then show ?thesis
    unfolding row_slice_def lo hi all by simp
qed

lemma result_row_entries:
  assumes X: "wf_CSR m X" and Y: "wf_CCS m Y"
    and compat: "CSR_Matrix.num_cols X = CCS_Matrix.num_rows Y"
    and fit: "sizes_fit X Y"
    and Z: "ret (sparse_matrix_multiply m X Y) = Inr Z"
    and i: "0 \<le> i" "i < CSR_Matrix.num_rows X"
  shows "row_entries (mem (sparse_matrix_multiply m X Y)) Z i = emitted m X Y i 0"
proof -
  note rb = result_blocks [OF X Y compat fit Z]
  have "zip (map fst (emitted_rows m X Y 0 (CSR_Matrix.num_rows X)))
            (map snd (emitted_rows m X Y 0 (CSR_Matrix.num_rows X)))
          = map (\<lambda>e. e) (emitted_rows m X Y 0 (CSR_Matrix.num_rows X))"
    by (simp add: zip_map_fst_snd)
  then show ?thesis
    unfolding row_entries_def rb(1,2)
    using result_row_slice [OF X Y compat fit Z i, of "\<lambda>e. e"] by simp
qed

lemma result_dense:
  assumes X: "wf_CSR m X" and Y: "wf_CCS m Y"
    and compat: "CSR_Matrix.num_cols X = CCS_Matrix.num_rows Y"
    and fit: "sizes_fit X Y"
    and Z: "ret (sparse_matrix_multiply m X Y) = Inr Z"
    and i: "0 \<le> i" "i < CSR_Matrix.num_rows X"
    and j: "0 \<le> j" "j < CCS_Matrix.num_cols Y"
  shows "dense_CSR (mem (sparse_matrix_multiply m X Y)) Z i j = computed_dot m X Y i j"
  using j by (simp add: dense_CSR_def result_row_entries [OF X Y compat fit Z i] entry_emitted)

lemma result_wf:
  assumes X: "wf_CSR m X" and Y: "wf_CCS m Y"
    and compat: "CSR_Matrix.num_cols X = CCS_Matrix.num_rows Y"
    and fit: "sizes_fit X Y"
    and Z: "ret (sparse_matrix_multiply m X Y) = Inr Z"
  shows "wf_CSR (mem (sparse_matrix_multiply m X Y)) Z"
proof -
  let ?m' = "mem (sparse_matrix_multiply m X Y)"
  let ?rows = "CSR_Matrix.num_rows X"
  let ?cols = "CCS_Matrix.num_cols Y"
  let ?E = "emitted_rows m X Y 0 ?rows"
  let ?f = "\<lambda>k. int (length (emitted_rows m X Y 0 k))"
  note rb = result_blocks [OF X Y compat fit Z]
  have rows0: "0 \<le> ?rows" using X by (simp add: wf_CSR_def)
  have cols0: "0 \<le> ?cols" using Y by (simp add: wf_CCS_def)
  have ptrs: "CSR_Matrix.val Z < length (blocks ?m')" "col_ind Z < length (blocks ?m')"
    "row_ptr Z < length (blocks ?m')"
    by (simp_all add: rb(4,5,6,9))
  have len: "int (length (blocks ?m' ! row_ptr Z)) = CSR_Matrix.num_rows Z + 1"
    using rows0 by (simp add: rb(3,7))
  have first: "blocks ?m' ! row_ptr Z ! 0 = 0"
  proof -
    have "[0..?rows] ! 0 = 0 + int 0" using rows0 by (intro nth_upto) simp
    then have "map ?f [0..?rows] ! 0 = ?f 0" using rows0 by simp
    then show ?thesis by (simp add: rb(3) emitted_rows_empty)
  qed
  have mono: "length (emitted_rows m X Y 0 a) \<le> length (emitted_rows m X Y 0 b)"
    if "0 \<le> a" "a \<le> b" for a b
    using emitted_rows_append [OF that, of m X Y] by simp
  have "sorted_wrt (\<lambda>a b. ?f a \<le> ?f b) [0..?rows]"
    by (rule sorted_wrt_mono_rel [of _ "(\<le>)"]) (auto intro: mono)
  then have sorted: "sorted (blocks ?m' ! row_ptr Z)"
    by (simp add: rb(3) sorted_map)
  have last: "blocks ?m' ! row_ptr Z ! nat (CSR_Matrix.num_rows Z)
                = int (length (blocks ?m' ! CSR_Matrix.val Z))"
  proof -
    have "[0..?rows] ! nat ?rows = 0 + int (nat ?rows)" using rows0 by (intro nth_upto) simp
    then have "map ?f [0..?rows] ! nat ?rows = ?f ?rows" using rows0 by simp
    then show ?thesis by (simp add: rb(1,3,7))
  qed
  have same: "length (blocks ?m' ! col_ind Z) = length (blocks ?m' ! CSR_Matrix.val Z)"
    by (simp add: rb(1,2))
  have rows: "sorted_wrt (<) (row_slice ?m' Z i (blocks ?m' ! col_ind Z))"
    if "i \<in> {0..<CSR_Matrix.num_rows Z}" for i
  proof -
    have i: "0 \<le> i" "i < ?rows" using that by (simp_all add: rb(7))
    have "row_slice ?m' Z i (blocks ?m' ! col_ind Z) = map fst (emitted m X Y i 0)"
      unfolding rb(2) by (rule result_row_slice [OF X Y compat fit Z i])
    then show ?thesis by (simp add: fst_emitted sorted_wrt_filter)
  qed
  have cols: "0 \<le> c \<and> c < CSR_Matrix.num_cols Z" if "c \<in> set (blocks ?m' ! col_ind Z)" for c
    using that emitted_rows_cols [of c _ m X Y 0 ?rows] by (auto simp: rb(2,8))
  show ?thesis
    unfolding wf_CSR_def
    using ptrs rows0 cols0 len first sorted last same rows cols
    by (simp add: rb(7,8))
qed

section \<open>The dense product\<close>

text \<open>The dense product: what its three loops compute on arrays of the stated sizes.\<close>

lemma dot_index_loop_spec:
  assumes "0 \<le> i" and "nat i < length A" and "int (length (A ! nat i)) = n"
    and "int (length B) = n" and "\<And>t. t < length B \<Longrightarrow> nat j < length (B ! t)"
    and "0 \<le> j" and "0 \<le> k" and "k \<le> n"
  shows "dot_index_loop A B n i j k d
           = Inr (d + (\<Sum>t \<in> {k..<n}. A ! nat i ! nat t * B ! nat t ! nat j))"
  using assms(7,8)
proof (induction "nat (n - k)" arbitrary: k d rule: less_induct)
  case less
  show ?case
  proof (cases "k < n")
    case False
    then show ?thesis by (subst dot_index_loop.simps) simp
  next
    case True
    have a: "at2 A i k = Inr (A ! nat i ! nat k)"
      using True less.prems(1) assms(1,2,3) by (simp add: at2_def)
    have kB: "nat k < length B" "k < int (length B)"
      using True less.prems(1) assms(4) by linarith+
    have "j < int (length (B ! nat k))"
      using assms(5) [OF kB(1)] assms(6) by linarith
    then have b: "at2 B k j = Inr (B ! nat k ! nat j)"
      using less.prems(1) assms(6) kB(2) by (simp add: at2_def)
    have "dot_index_loop A B n i j k d
            = dot_index_loop A B n i j (k + 1) (d + A ! nat i ! nat k * B ! nat k ! nat j)"
      using True by (subst dot_index_loop.simps) (simp add: a b)
    also have "\<dots> = Inr (d + A ! nat i ! nat k * B ! nat k ! nat j
                       + (\<Sum>t \<in> {k + 1..<n}. A ! nat i ! nat t * B ! nat t ! nat j))"
      using True less.prems(1) by (intro less.hyps) auto
    also have "{k..<n} = insert k {k + 1..<n}" using True by auto
    then have "(\<Sum>t \<in> {k + 1..<n}. A ! nat i ! nat t * B ! nat t ! nat j)
                 = (\<Sum>t \<in> {k..<n}. A ! nat i ! nat t * B ! nat t ! nat j)
                   - A ! nat i ! nat k * B ! nat k ! nat j"
      by simp
    finally show ?thesis by simp
  qed
qed

lemma map_upto_step: "j \<le> c \<Longrightarrow> map g [j..c] = g j # map g [j + 1..c]"
  by (simp add: upto_rec1 [of j c])

lemma dense_cols_loop_spec:
  assumes "0 \<le> i" and "nat i < length A" and "int (length (A ! nat i)) = n"
    and "int (length B) = n" and "\<And>t. t < length B \<Longrightarrow> int (length (B ! t)) = c"
    and "nat i < length Z" and "int (length (Z ! nat i)) = c"
    and "0 \<le> j" and "j \<le> c"
  shows "dense_cols_loop A B n c i j Z
           = Inr (Z[nat i := take (nat j) (Z ! nat i)
                    @ map (\<lambda>j'. \<Sum>t \<in> {0..<n}. A ! nat i ! nat t * B ! nat t ! nat j') [j..c - 1]])"
  using assms(6,7,8,9)
proof (induction "nat (c - j)" arbitrary: j Z rule: less_induct)
  case less
  let ?g = "\<lambda>j'. \<Sum>t \<in> {0..<n}. A ! nat i ! nat t * B ! nat t ! nat j'"
  show ?case
  proof (cases "j < c")
    case False
    then have "j = c" using less.prems(4) by simp
    then show ?thesis
      using less.prems(2) by (subst dense_cols_loop.simps) simp
  next
    case True
    have n0: "0 \<le> n" using assms(4) by linarith
    have "\<And>t. t < length B \<Longrightarrow> nat j < length (B ! t)"
      using assms(5) True less.prems(3) by (metis nat_less_iff of_nat_less_iff zless_nat_conj)
    then have dot: "dot_index_loop A B n i j 0 0 = Inr (?g j)"
      using dot_index_loop_spec [OF assms(1,2,3,4) _ less.prems(3) _ n0, where d = 0] by simp
    let ?Z1 = "Z[nat i := (Z ! nat i)[nat j := ?g j]]"
    have put: "put2 Z i j (?g j) = Inr ?Z1"
      using True less.prems(1,2,3) assms(1) by (simp add: put2_def)
    have row1: "?Z1 ! nat i = (Z ! nat i)[nat j := ?g j]"
      using less.prems(1) by simp
    have jl: "nat j < length (Z ! nat i)" using True less.prems(2,3) by linarith
    have "dense_cols_loop A B n c i j Z = dense_cols_loop A B n c i (j + 1) ?Z1"
      using True by (subst dense_cols_loop.simps) (simp add: dot put)
    also have "\<dots> = Inr (?Z1[nat i := take (nat (j + 1)) (?Z1 ! nat i) @ map ?g [j + 1..c - 1]])"
      using True less.prems by (intro less.hyps) auto
    also have "take (nat (j + 1)) (?Z1 ! nat i) = take (nat j) (Z ! nat i) @ [?g j]"
      using jl less.prems(3) unfolding row1 by (simp add: nat_add_distrib take_Suc_update)
    also have "?Z1[nat i := (take (nat j) (Z ! nat i) @ [?g j]) @ map ?g [j + 1..c - 1]]
                 = Z[nat i := take (nat j) (Z ! nat i) @ map ?g [j..c - 1]]"
      using True by (simp add: map_upto_step [of j "c - 1"])
    finally show ?thesis .
  qed
qed

lemma dense_rows_loop_spec:
  assumes "int (length A) = r" and "\<And>t. t < length A \<Longrightarrow> int (length (A ! t)) = n"
    and "int (length B) = n" and "\<And>t. t < length B \<Longrightarrow> int (length (B ! t)) = c"
    and "int (length Z) = r" and "\<And>t. t < length Z \<Longrightarrow> int (length (Z ! t)) = c"
    and "0 \<le> c" and "0 \<le> i" and "i \<le> r"
  shows "dense_rows_loop A B n r c i Z
           = Inr (take (nat i) Z
                  @ map (\<lambda>i'. map (\<lambda>j'. \<Sum>t \<in> {0..<n}. A ! nat i' ! nat t * B ! nat t ! nat j')
                                 [0..c - 1]) [i..r - 1])"
  using assms(5,6,8,9)
proof (induction "nat (r - i)" arbitrary: i Z rule: less_induct)
  case less
  let ?row = "\<lambda>i'. map (\<lambda>j'. \<Sum>t \<in> {0..<n}. A ! nat i' ! nat t * B ! nat t ! nat j') [0..c - 1]"
  show ?case
  proof (cases "i < r")
    case False
    then have "i = r" using less.prems(4) by simp
    then show ?thesis
      using less.prems(1) by (subst dense_rows_loop.simps) simp
  next
    case True
    have iA: "nat i < length A" "nat i < length Z"
      using True less.prems(1,3) assms(1) by linarith+
    let ?Z1 = "Z[nat i := ?row i]"
    have "dense_cols_loop A B n c i 0 Z
            = Inr (Z[nat i := take (nat 0) (Z ! nat i) @ ?row i])"
      using assms(2) [OF iA(1)] less.prems(2) [OF iA(2)]
      by (intro dense_cols_loop_spec [OF less.prems(3) iA(1) _ assms(3,4) iA(2)])
         (auto simp: assms(7))
    then have cl: "dense_cols_loop A B n c i 0 Z = Inr ?Z1" by simp
    have len1: "int (length ?Z1) = r" using less.prems(1) by simp
    have rows1: "int (length (?Z1 ! t)) = c" if "t < length ?Z1" for t
      using that less.prems(2) [of t] assms(7) by (cases "t = nat i") simp_all
    have "dense_rows_loop A B n r c i Z = dense_rows_loop A B n r c (i + 1) ?Z1"
      using True by (subst dense_rows_loop.simps) (simp add: cl)
    also have "\<dots> = Inr (take (nat (i + 1)) ?Z1 @ map ?row [i + 1..r - 1])"
      using True less.prems(3) rows1 by (intro less.hyps len1) auto
    also have "take (nat (i + 1)) ?Z1 = take (nat i) Z @ [?row i]"
      using iA(2) less.prems(3) by (simp add: nat_add_distrib take_Suc_update)
    also have "(take (nat i) Z @ [?row i]) @ map ?row [i + 1..r - 1]
                 = take (nat i) Z @ map ?row [i..r - 1]"
      using True by (simp add: map_upto_step [of i "r - 1"])
    finally show ?thesis .
  qed
qed

lemma matrix_multiply_spec:
  assumes "int (length A) = r" and "\<And>t. t < length A \<Longrightarrow> int (length (A ! t)) = n"
    and "int (length B) = n" and "\<And>t. t < length B \<Longrightarrow> int (length (B ! t)) = c"
    and "0 \<le> c"
  shows "matrix_multiply A B r n n c
           = Inr (map (\<lambda>i. map (\<lambda>j. \<Sum>t \<in> {0..<n}. A ! nat i ! nat t * B ! nat t ! nat j)
                              [0..c - 1]) [0..r - 1])"
proof -
  have r0: "0 \<le> r" using assms(1) by linarith
  let ?Z = "replicate (nat r) (replicate (nat c) (0::cint))"
  have init: "init_2d_array r c = Inr ?Z"
    using r0 assms(5) by (simp add: init_2d_array_def)
  have "dense_rows_loop A B n r c 0 ?Z
          = Inr (take (nat 0) ?Z
                 @ map (\<lambda>i. map (\<lambda>j. \<Sum>t \<in> {0..<n}. A ! nat i ! nat t * B ! nat t ! nat j)
                              [0..c - 1]) [0..r - 1])"
    using r0 assms(5)
    by (intro dense_rows_loop_spec [OF assms(1,2,3,4)]) auto
  then show ?thesis by (simp add: matrix_multiply_def init)
qed

lemma to_dense_CSR_shape:
  assumes "0 \<le> CSR_Matrix.num_rows X" and "0 \<le> CSR_Matrix.num_cols X"
  shows "int (length (to_dense_CSR m X)) = CSR_Matrix.num_rows X"
    and "\<And>t. t < length (to_dense_CSR m X) \<Longrightarrow>
           int (length (to_dense_CSR m X ! t)) = CSR_Matrix.num_cols X"
    and "\<And>i j. 0 \<le> i \<Longrightarrow> i < CSR_Matrix.num_rows X \<Longrightarrow> 0 \<le> j
           \<Longrightarrow> j < CSR_Matrix.num_cols X \<Longrightarrow>
           to_dense_CSR m X ! nat i ! nat j = dense_CSR m X i j"
  using assms by (simp_all add: to_dense_CSR_def)

lemma to_dense_CCS_shape:
  assumes "0 \<le> CCS_Matrix.num_rows Y" and "0 \<le> CCS_Matrix.num_cols Y"
  shows "int (length (to_dense_CCS m Y)) = CCS_Matrix.num_rows Y"
    and "\<And>t. t < length (to_dense_CCS m Y) \<Longrightarrow>
           int (length (to_dense_CCS m Y ! t)) = CCS_Matrix.num_cols Y"
    and "\<And>i j. 0 \<le> i \<Longrightarrow> i < CCS_Matrix.num_rows Y \<Longrightarrow> 0 \<le> j
           \<Longrightarrow> j < CCS_Matrix.num_cols Y \<Longrightarrow>
           to_dense_CCS m Y ! nat i ! nat j = dense_CCS m Y i j"
  using assms by (simp_all add: to_dense_CCS_def)

lemma dot_index_loop_error:
  "dot_index_loop A B n i j k d = Inl e \<Longrightarrow> e = InvalidIndex"
proof (induction A B n i j k d rule: dot_index_loop.induct)
  case (1 X Y x_cols cur_z_row cur_z_col dot_index dot_product)
  from "1.prems" show ?case
    by (subst (asm) dot_index_loop.simps)
       (auto simp: at2_def split: if_splits sum.splits intro: "1.IH")
qed

lemma dense_cols_loop_error:
  "dense_cols_loop A B n c i j Z = Inl e \<Longrightarrow> e = InvalidIndex"
proof (induction A B n c i j Z rule: dense_cols_loop.induct)
  case (1 X Y x_cols z_cols cur_z_row cur_z_col Z)
  from "1.prems" show ?case
    by (subst (asm) dense_cols_loop.simps)
       (auto simp: put2_def split: if_splits sum.splits
             dest: dot_index_loop_error intro: "1.IH")
qed

lemma dense_rows_loop_error:
  "dense_rows_loop A B n r c i Z = Inl e \<Longrightarrow> e = InvalidIndex"
proof (induction A B n r c i Z rule: dense_rows_loop.induct)
  case (1 X Y x_cols z_rows z_cols cur_z_row Z)
  from "1.prems" show ?case
    by (subst (asm) dense_rows_loop.simps)
       (auto split: if_splits sum.splits dest: dense_cols_loop_error intro: "1.IH")
qed

lemma init_CSR_matrix_error:
  "init_CSR_matrix m n r c = Inl e \<Longrightarrow> e = AllocationFailure"
  by (auto simp: init_CSR_matrix_def Malloc_def split: if_splits sum.splits)

lemma multiply_scratch_error:
  "multiply_scratch m X Y = Inl e \<Longrightarrow> e = NegativeArrayBound"
  by (auto simp: multiply_scratch_def Let_def split: if_splits prod.splits)

section \<open>Termination\<close>

text \<open>
  Termination, loop by loop. \<open>f_dom args\<close> says that the recursion of \<open>f\<close> from \<open>args\<close>
  is well-founded: the loop that \<open>f\<close> stands for ends when it is started in that state.
\<close>

lemma advance_total: "All advance_dom"
  by (relation "measure (\<lambda>(m, X, Y, cur_z_col, x_col, y_row).
        nat (fst (rd m (col_ptr Y) (cur_z_col + 1)) - y_row))")
     (auto simp: fst_def split: prod.splits)

lemma dot_loop_total: "All dot_loop_dom"
proof (relation "measure (\<lambda>(m, X, Y, cur_z_row, cur_z_col, x_col, y_row, d).
        nat (fst (rd m (row_ptr X) (cur_z_row + 1)) - x_col))", goal_cases)
  case 1
  show ?case by simp
next
  case (2 m X Y cur_z_row cur_z_col x_col y_row d hi f1)
  from 2(2) show ?case by (simp add: 2(1)[symmetric])
next
  case (3 m X Y cur_z_row cur_z_col x_col y_row d hi f1)
  from 3(2) show ?case by (simp add: 3(1)[symmetric])
qed

lemma cols_loop_total: "All cols_loop_dom"
  by (relation "measure (\<lambda>(m, X, Y, z_cols, cur_z_row, cur_z_col, s, n).
        nat (z_cols - cur_z_col))") auto

lemma rows_loop_total: "All rows_loop_dom"
  by (relation "measure (\<lambda>(m, X, Y, z_rows, z_cols, cur_z_row, s).
        nat (z_rows - cur_z_row))") auto

lemma fill_val_total: "All fill_val_dom"
  by (relation "measure (\<lambda>(m, Z, s, i). nat (z_val_count s - i))") auto

lemma fill_row_ptr_total: "All fill_row_ptr_dom"
  by (relation "measure (\<lambda>(m, Z, s, z_rows, i). nat (int32 (z_rows + 1) - i))") auto

section \<open>The examples are well-formed\<close>

lemma gap_wf: "wf_CSR gap_mem gap_X" "wf_CCS gap_mem gap_Y"
  "CSR_Matrix.num_cols gap_X = CCS_Matrix.num_rows gap_Y"
  by (simp_all add: wf_CSR_def wf_CCS_def gap_mem_def gap_X_def gap_Y_def
      row_slice_def col_slice_def slice_def)

lemma main_wf: "wf_CSR main_mem main_X" "wf_CCS main_mem main_Y"
  "CSR_Matrix.num_cols main_X = CCS_Matrix.num_rows main_Y"
  by code_simp+

lemma main_fit: "sizes_fit main_X main_Y"
  by (simp add: sizes_fit_def main_X_def main_Y_def)

lemma short_sorted_wrt: "length xs \<le> 1 \<Longrightarrow> sorted_wrt P xs"
  by (cases xs) auto

lemma big_wf: "wf_CSR big_mem big_X" "wf_CCS big_mem big_Y"
  "CSR_Matrix.num_cols big_X = CCS_Matrix.num_rows big_Y"
  by (simp_all add: wf_CSR_def wf_CCS_def big_mem_def big_X_def big_Y_def
      row_slice_def col_slice_def slice_def short_sorted_wrt)

lemma tall_wf: "wf_CSR tall_mem tall_X" "wf_CCS tall_mem tall_Y"
  "CSR_Matrix.num_cols tall_X = CCS_Matrix.num_rows tall_Y"
  by (simp_all add: wf_CSR_def wf_CCS_def tall_mem_def tall_X_def tall_Y_def
      row_slice_def col_slice_def slice_def)

lemma wide_wf: "wf_CSR wide_mem wide_X" "wf_CCS wide_mem wide_Y"
  "CSR_Matrix.num_cols wide_X = CCS_Matrix.num_rows wide_Y"
  by (simp_all add: wf_CSR_def wf_CCS_def wide_mem_def wide_X_def wide_Y_def
      row_slice_def col_slice_def slice_def short_sorted_wrt)

lemma sq_wf: "wf_CSR sq_mem sq_X" "wf_CCS sq_mem sq_Y"
  "CSR_Matrix.num_cols sq_X = CCS_Matrix.num_rows sq_Y" "sizes_fit sq_X sq_Y"
  by (simp_all add: wf_CSR_def wf_CCS_def sq_mem_def sq_X_def sq_Y_def
      row_slice_def col_slice_def slice_def sizes_fit_def)

section \<open>Entries as integers\<close>

text \<open>
  The signed reading of a 32-bit sum of products is the sum of the products of the
  signed readings, wrapped around.
\<close>

lemma sint_word_of_int32: "sint (word_of_int n :: 32 word) = int32 n"
  by (simp add: int_word_sint int32_def)

lemma sint_sum_products:
  "sint (\<Sum>k \<in> A. f k * g k :: 32 word) = int32 (\<Sum>k \<in> A. sint (f k) * sint (g k))"
proof -
  have "(\<Sum>k \<in> A. f k * g k) = (word_of_int (\<Sum>k \<in> A. sint (f k) * sint (g k)) :: 32 word)"
    by simp
  then show ?thesis by (simp only: sint_word_of_int32)
qed

section \<open>The call on sizes that do not fit an \<^verbatim>\<open>int\<close>\<close>

text \<open>
  On \<open>big\<close> and \<open>tall\<close> a size of a scratch array is negative and the call ends there.
  On \<open>wide\<close> the two scratch arrays have no cell, and the first entry that is emitted
  is written outside them.
\<close>

lemma big_run:
  "sparse_matrix_multiply big_mem big_X big_Y
     = \<lparr>ret = Inl NegativeArrayBound, mem = big_mem, faults = []\<rparr>"
  by (simp add: sparse_matrix_multiply_def multiply_scratch_def int32_def big_X_def big_Y_def)

lemma tall_run:
  "sparse_matrix_multiply tall_mem tall_X tall_Y
     = \<lparr>ret = Inl NegativeArrayBound, mem = tall_mem, faults = []\<rparr>"
  by (simp add: sparse_matrix_multiply_def multiply_scratch_def int32_def tall_X_def tall_Y_def)

lemma big_dot: "computed_dot big_mem big_X big_Y 0 0 = 1"
proof -
  have rd: "rd big_mem (col_ptr big_Y) 0 = (0, [])" "rd big_mem (row_ptr big_X) 0 = (0, [])"
    "rd big_mem (col_ptr big_Y) 1 = (1, [])" "rd big_mem (row_ptr big_X) 1 = (1, [])"
    "rd big_mem (row_ind big_Y) 0 = (0, [])" "rd big_mem (col_ind big_X) 0 = (0, [])"
    "rd big_mem (CSR_Matrix.val big_X) 0 = (1, [])"
    "rd big_mem (CCS_Matrix.val big_Y) 0 = (1, [])"
    by (simp_all add: rd_def big_mem_def big_X_def big_Y_def)
  have a: "advance big_mem big_X big_Y 0 0 0 = (0, [])"
    by (subst advance.simps) (simp add: rd)
  have b: "dot_loop big_mem big_X big_Y 0 0 1 0 1 = (1, [])"
    by (subst dot_loop.simps) (simp add: rd)
  have "dot_loop big_mem big_X big_Y 0 0 0 0 0 = (1, [])"
    by (subst dot_loop.simps) (simp add: rd a b)
  then show ?thesis by (simp add: computed_dot_def rd)
qed

lemma big_dense:
  "\<not> isl (matrix_multiply (to_dense_CSR big_mem big_X) (to_dense_CCS big_mem big_Y)
            (CSR_Matrix.num_rows big_X) (CSR_Matrix.num_cols big_X)
            (CCS_Matrix.num_rows big_Y) (CCS_Matrix.num_cols big_Y))"
proof -
  have dims: "0 \<le> CSR_Matrix.num_rows big_X" "0 \<le> CSR_Matrix.num_cols big_X"
    "0 \<le> CCS_Matrix.num_rows big_Y" "0 \<le> CCS_Matrix.num_cols big_Y"
    by (simp_all add: big_X_def big_Y_def)
  note A = to_dense_CSR_shape [OF dims(1,2), where m = big_mem]
  note B = to_dense_CCS_shape [OF dims(3,4), where m = big_mem]
  have "matrix_multiply (to_dense_CSR big_mem big_X) (to_dense_CCS big_mem big_Y)
          (CSR_Matrix.num_rows big_X) (CSR_Matrix.num_cols big_X)
          (CSR_Matrix.num_cols big_X) (CCS_Matrix.num_cols big_Y)
        = Inr (map (\<lambda>i. map (\<lambda>j. \<Sum>t \<in> {0..<CSR_Matrix.num_cols big_X}.
                  to_dense_CSR big_mem big_X ! nat i ! nat t
                  * to_dense_CCS big_mem big_Y ! nat t ! nat j)
                [0..CCS_Matrix.num_cols big_Y - 1]) [0..CSR_Matrix.num_rows big_X - 1])"
    using A(1,2) B(1,2) dims(4) by (intro matrix_multiply_spec) (simp_all add: big_wf(3))
  then show ?thesis by (simp add: big_wf(3))
qed

lemma sq_cells:
  "sint (dense_CSR sq_mem sq_X 0 0) = 46341" "sint (dense_CCS sq_mem sq_Y 0 0) = 46341"
  "sint (dense_result sq_mem sq_X sq_Y ! 0 ! 0) = - 2147479015"
  by code_simp+

lemma wide_sizes:
  "int32 (CSR_Matrix.num_rows wide_X * CCS_Matrix.num_cols wide_Y) = 0"
  by (simp add: int32_def wide_X_def wide_Y_def)

lemma wide_rd:
  "rd wide_mem (col_ptr wide_Y) 0 = (0, [])" "rd wide_mem (row_ptr wide_X) 0 = (0, [])"
  "rd wide_mem (col_ptr wide_Y) 1 = (1, [])" "rd wide_mem (row_ptr wide_X) 1 = (1, [])"
  "rd wide_mem (row_ind wide_Y) 0 = (0, [])" "rd wide_mem (col_ind wide_X) 0 = (0, [])"
  "rd wide_mem (CSR_Matrix.val wide_X) 0 = (1, [])" "rd wide_mem (CCS_Matrix.val wide_Y) 0 = (1, [])"
  by (simp_all add: rd_def wide_mem_def wide_X_def wide_Y_def)

lemma wide_dot: "dot_loop wide_mem wide_X wide_Y 0 0 0 0 0 = (1, [])"
proof -
  have a: "advance wide_mem wide_X wide_Y 0 0 0 = (0, [])"
    by (subst advance.simps) (simp add: wide_rd)
  have b: "dot_loop wide_mem wide_X wide_Y 0 0 1 0 1 = (1, [])"
    by (subst dot_loop.simps) (simp add: wide_rd)
  show ?thesis
    by (subst dot_loop.simps) (simp add: wide_rd a b)
qed

lemma wide_cols:
  assumes "z_val s = []" and "z_col_ind s = []" and "z_val_count s = 0"
  shows "\<exists>s' n fs. cols_loop wide_mem wide_X wide_Y 65536 0 0 s 0
           = (s', n, Bad_write Z_val 0 # Bad_write Z_col_ind 0 # fs)"
  by (subst cols_loop.simps) (simp add: wide_rd wide_dot assms wr_local_def split: prod.splits)

lemma wide_rows:
  assumes "z_val s = []" and "z_col_ind s = []" and "z_val_count s = 0"
  shows "\<exists>s' fs. rows_loop wide_mem wide_X wide_Y 65536 65536 0 s
           = (s', Bad_write Z_val 0 # Bad_write Z_col_ind 0 # fs)"
proof -
  obtain s1 n fs where c: "cols_loop wide_mem wide_X wide_Y 65536 0 0 s 0
           = (s1, n, Bad_write Z_val 0 # Bad_write Z_col_ind 0 # fs)"
    using wide_cols [OF assms] by blast
  show ?thesis
    by (subst rows_loop.simps) (simp add: c split: prod.splits)
qed

lemma wide_scratch:
  "\<exists>s fs. multiply_scratch wide_mem wide_X wide_Y
     = Inr (s, Bad_write Z_val 0 # Bad_write Z_col_ind 0 # fs)"
proof -
  have sz: "int32 (CSR_Matrix.num_rows wide_X * CCS_Matrix.num_cols wide_Y) = 0"
    "int32 (CSR_Matrix.num_rows wide_X + 1) = 65537"
    by (simp_all add: int32_def wide_X_def wide_Y_def)
  have d: "CSR_Matrix.num_rows wide_X = 65536" "CCS_Matrix.num_cols wide_Y = 65536"
    by (simp_all add: wide_X_def wide_Y_def)
  let ?s = "\<lparr>z_val = vla wide_mem Z_val 0, z_col_ind = vla wide_mem Z_col_ind 0,
             z_row_ptr = (vla wide_mem Z_row_ptr 65537)[0 := 0], z_val_count = 0\<rparr>"
  obtain s' fs where r: "rows_loop wide_mem wide_X wide_Y 65536 65536 0 ?s
           = (s', Bad_write Z_val 0 # Bad_write Z_col_ind 0 # fs)"
    using wide_rows [of ?s] by (auto simp: vla_def)
  show ?thesis
    unfolding multiply_scratch_def Let_def sz
    by (simp add: d wr_local_def length_vla r)
qed

lemma wide_run:
  "\<exists>fs. faults (sparse_matrix_multiply wide_mem wide_X wide_Y)
     = Bad_write Z_val 0 # Bad_write Z_col_ind 0 # fs"
proof -
  obtain s fs where ms: "multiply_scratch wide_mem wide_X wide_Y
     = Inr (s, Bad_write Z_val 0 # Bad_write Z_col_ind 0 # fs)"
    using wide_scratch by blast
  show ?thesis
    by (simp add: sparse_matrix_multiply_def wide_wf(3) ms split: sum.splits prod.splits)
qed

section \<open>The claims\<close>

text \<open>
  The claims C1, C2, C4, C5, C7, C9 and C10 speak of every well-formed \<open>X\<close> and \<open>Y\<close> with
  \<open>X.cols = Y.rows\<close>. The code computes the sizes of its scratch arrays in \<^verbatim>\<open>int\<close>, so
  each of them holds for the operands with \<open>sizes_fit X Y\<close> and fails on one of the
  examples \<open>big\<close>, \<open>tall\<close> and \<open>wide\<close>.
\<close>

text \<open>
  C1 says that the call returns \<open>Z\<close> with \<open>Z[i][j]\<close> the sum over \<open>k\<close> of
  \<open>X[i][k] * Y[k][j]\<close> for every well-formed \<open>X\<close> and \<open>Y\<close> with \<open>X.cols = Y.rows\<close>. On
  \<open>sq\<close> that sum is \<open>46341 * 46341 = 2147488281\<close> and the call stores \<open>- 2147479015\<close>;
  on \<open>big\<close> the call returns no matrix.
\<close>

theorem multiply_is_product_counterexample:
  "wf_CSR sq_mem sq_X \<and> wf_CCS sq_mem sq_Y \<and>
   CSR_Matrix.num_cols sq_X = CCS_Matrix.num_rows sq_Y \<and>
   sint (dense_CSR sq_mem sq_X 0 0) * sint (dense_CCS sq_mem sq_Y 0 0) = 2147488281 \<and>
   sint (dense_result sq_mem sq_X sq_Y ! 0 ! 0) = - 2147479015 \<and>
   wf_CSR big_mem big_X \<and> wf_CCS big_mem big_Y \<and>
   CSR_Matrix.num_cols big_X = CCS_Matrix.num_rows big_Y \<and>
   ret (sparse_matrix_multiply big_mem big_X big_Y) = Inl NegativeArrayBound"
  using sq_wf(1,2,3) big_wf by (simp add: sq_cells big_run)

text \<open>
  C1 as amended: for well-formed \<open>X\<close> and \<open>Y\<close> with \<open>X.cols = Y.rows\<close> and with
  \<open>X.rows * Y.cols\<close> and \<open>X.rows + 1\<close> less than \<open>2^31\<close>, the call returns a matrix \<open>Z\<close>
  of shape \<open>X.rows \<times> Y.cols\<close> such that, for every \<open>i\<close> in \<open>[0, X.rows)\<close> and \<open>j\<close> in
  \<open>[0, Y.cols)\<close>, \<open>Z[i][j]\<close> is the sum over \<open>k\<close> of \<open>X[i][k] * Y[k][j]\<close> in the arithmetic
  of \<^verbatim>\<open>int\<close>: as an integer it is that sum wrapped around to 32 bits, and it is that
  sum when the sum lies in \<open>[- 2^31, 2^31)\<close>.
\<close>

theorem multiply_is_product:
  assumes "wf_CSR m X" and "wf_CCS m Y"
    and "CSR_Matrix.num_cols X = CCS_Matrix.num_rows Y"
    and "sizes_fit X Y"
  shows "\<exists>Z. ret (sparse_matrix_multiply m X Y) = Inr Z \<and>
           CSR_Matrix.num_rows Z = CSR_Matrix.num_rows X \<and>
           CSR_Matrix.num_cols Z = CCS_Matrix.num_cols Y \<and>
           (\<forall>i j. 0 \<le> i \<and> i < CSR_Matrix.num_rows X \<and> 0 \<le> j \<and> j < CCS_Matrix.num_cols Y \<longrightarrow>
              dense_CSR (mem (sparse_matrix_multiply m X Y)) Z i j
                = (\<Sum>k \<in> {0..<CSR_Matrix.num_cols X}. dense_CSR m X i k * dense_CCS m Y k j) \<and>
              sint (dense_CSR (mem (sparse_matrix_multiply m X Y)) Z i j)
                = int32 (\<Sum>k \<in> {0..<CSR_Matrix.num_cols X}.
                           sint (dense_CSR m X i k) * sint (dense_CCS m Y k j)) \<and>
              (- 2147483648 \<le> (\<Sum>k \<in> {0..<CSR_Matrix.num_cols X}.
                                  sint (dense_CSR m X i k) * sint (dense_CCS m Y k j)) \<and>
               (\<Sum>k \<in> {0..<CSR_Matrix.num_cols X}.
                  sint (dense_CSR m X i k) * sint (dense_CCS m Y k j)) < 2147483648 \<longrightarrow>
               sint (dense_CSR (mem (sparse_matrix_multiply m X Y)) Z i j)
                 = (\<Sum>k \<in> {0..<CSR_Matrix.num_cols X}.
                      sint (dense_CSR m X i k) * sint (dense_CCS m Y k j))))"
proof -
  obtain Z where Z: "ret (sparse_matrix_multiply m X Y) = Inr Z"
    using run_spec(1) [OF assms] by blast
  note rb = result_blocks [OF assms Z]
  let ?S = "\<lambda>i j. \<Sum>k \<in> {0..<CSR_Matrix.num_cols X}.
                     sint (dense_CSR m X i k) * sint (dense_CCS m Y k j)"
  have w: "dense_CSR (mem (sparse_matrix_multiply m X Y)) Z i j
          = (\<Sum>k \<in> {0..<CSR_Matrix.num_cols X}. dense_CSR m X i k * dense_CCS m Y k j)"
    if "0 \<le> i" "i < CSR_Matrix.num_rows X" "0 \<le> j" "j < CCS_Matrix.num_cols Y" for i j
    using result_dense [OF assms Z that] computed_dot_sum [OF assms(1,2) that] by simp
  have s: "sint (dense_CSR (mem (sparse_matrix_multiply m X Y)) Z i j) = int32 (?S i j)"
    if "0 \<le> i" "i < CSR_Matrix.num_rows X" "0 \<le> j" "j < CCS_Matrix.num_cols Y" for i j
    unfolding w [OF that] by (rule sint_sum_products)
  have e: "sint (dense_CSR (mem (sparse_matrix_multiply m X Y)) Z i j) = ?S i j"
    if "0 \<le> i" "i < CSR_Matrix.num_rows X" "0 \<le> j" "j < CCS_Matrix.num_cols Y"
      "- 2147483648 \<le> ?S i j" "?S i j < 2147483648" for i j
    unfolding s [OF that(1-4)] using that(5,6) by (rule int32_id)
  show ?thesis using Z rb(7,8) w s e by blast
qed

theorem multiply_is_product_witness:
  "wf_CSR main_mem main_X \<and> wf_CCS main_mem main_Y \<and>
   CSR_Matrix.num_cols main_X = CCS_Matrix.num_rows main_Y \<and> sizes_fit main_X main_Y \<and>
   (\<exists>Z. ret (sparse_matrix_multiply main_mem main_X main_Y) = Inr Z \<and>
      CSR_Matrix.num_rows Z = 7 \<and> CSR_Matrix.num_cols Z = 6 \<and>
      dense_CSR (mem (sparse_matrix_multiply main_mem main_X main_Y)) Z 0 2
        = (\<Sum>k \<in> {0..<5}. dense_CSR main_mem main_X 0 k * dense_CCS main_mem main_Y k 2) \<and>
      sint (dense_CSR (mem (sparse_matrix_multiply main_mem main_X main_Y)) Z 0 2)
        = (\<Sum>k \<in> {0..<5}. sint (dense_CSR main_mem main_X 0 k)
                               * sint (dense_CCS main_mem main_Y k 2)) \<and>
      sint (dense_CSR (mem (sparse_matrix_multiply main_mem main_X main_Y)) Z 0 2) = 20)"
proof -
  let ?S = "\<Sum>k \<in> {0..<5}. sint (dense_CSR main_mem main_X 0 k)
                                * sint (dense_CCS main_mem main_Y k 2)"
  have s20: "?S = 20"
    by code_simp
  from multiply_is_product [OF main_wf main_fit]
  obtain Z where Z: "ret (sparse_matrix_multiply main_mem main_X main_Y) = Inr Z"
    and r: "CSR_Matrix.num_rows Z = CSR_Matrix.num_rows main_X"
    and c: "CSR_Matrix.num_cols Z = CCS_Matrix.num_cols main_Y"
    and d: "\<forall>i j. 0 \<le> i \<and> i < CSR_Matrix.num_rows main_X \<and> 0 \<le> j
                \<and> j < CCS_Matrix.num_cols main_Y \<longrightarrow>
              dense_CSR (mem (sparse_matrix_multiply main_mem main_X main_Y)) Z i j
                = (\<Sum>k \<in> {0..<CSR_Matrix.num_cols main_X}.
                     dense_CSR main_mem main_X i k * dense_CCS main_mem main_Y k j) \<and>
              sint (dense_CSR (mem (sparse_matrix_multiply main_mem main_X main_Y)) Z i j)
                = int32 (\<Sum>k \<in> {0..<CSR_Matrix.num_cols main_X}.
                           sint (dense_CSR main_mem main_X i k)
                           * sint (dense_CCS main_mem main_Y k j)) \<and>
              (- 2147483648 \<le> (\<Sum>k \<in> {0..<CSR_Matrix.num_cols main_X}.
                                  sint (dense_CSR main_mem main_X i k)
                                  * sint (dense_CCS main_mem main_Y k j)) \<and>
               (\<Sum>k \<in> {0..<CSR_Matrix.num_cols main_X}.
                  sint (dense_CSR main_mem main_X i k)
                  * sint (dense_CCS main_mem main_Y k j)) < 2147483648 \<longrightarrow>
               sint (dense_CSR (mem (sparse_matrix_multiply main_mem main_X main_Y)) Z i j)
                 = (\<Sum>k \<in> {0..<CSR_Matrix.num_cols main_X}.
                      sint (dense_CSR main_mem main_X i k)
                      * sint (dense_CCS main_mem main_Y k j)))"
    by blast
  have dims: "CSR_Matrix.num_rows main_X = 7" "CSR_Matrix.num_cols main_X = 5"
    "CCS_Matrix.num_cols main_Y = 6"
    by (simp_all add: main_X_def main_Y_def)
  have c02: "(0::int) \<le> 0 \<and> 0 < CSR_Matrix.num_rows main_X \<and> (0::int) \<le> 2
               \<and> 2 < CCS_Matrix.num_cols main_Y"
    by (simp add: dims)
  from d [rule_format, OF c02]
  have d1: "dense_CSR (mem (sparse_matrix_multiply main_mem main_X main_Y)) Z 0 2
          = (\<Sum>k \<in> {0..<5}. dense_CSR main_mem main_X 0 k * dense_CCS main_mem main_Y k 2)"
    and d3: "- 2147483648 \<le> ?S \<and> ?S < 2147483648 \<longrightarrow>
          sint (dense_CSR (mem (sparse_matrix_multiply main_mem main_X main_Y)) Z 0 2) = ?S"
    unfolding dims by blast+
  have d4: "sint (dense_CSR (mem (sparse_matrix_multiply main_mem main_X main_Y)) Z 0 2) = ?S"
    using d3 unfolding s20 by simp
  have d5: "sint (dense_CSR (mem (sparse_matrix_multiply main_mem main_X main_Y)) Z 0 2) = 20"
    using d4 unfolding s20 .
  show ?thesis
    using main_wf main_fit Z r [unfolded dims] c [unfolded dims] d1 d4 d5 by blast
qed

text \<open>
  C2 says that the dense product of the dense forms is the dense form of the matrix that
  the call returns, for every well-formed \<open>X\<close> and \<open>Y\<close> with \<open>X.cols = Y.rows\<close>. On \<open>big\<close>
  the size \<open>X.rows * Y.cols\<close> of the scratch arrays is negative in \<^verbatim>\<open>int\<close>: the dense
  product returns a matrix and the call returns none.
\<close>

theorem sparse_agrees_with_dense_counterexample:
  "wf_CSR big_mem big_X \<and> wf_CCS big_mem big_Y \<and>
   CSR_Matrix.num_cols big_X = CCS_Matrix.num_rows big_Y \<and>
   int32 (CSR_Matrix.num_rows big_X * CCS_Matrix.num_cols big_Y) = - 2147479015 \<and>
   \<not> isl (matrix_multiply (to_dense_CSR big_mem big_X) (to_dense_CCS big_mem big_Y)
            (CSR_Matrix.num_rows big_X) (CSR_Matrix.num_cols big_X)
            (CCS_Matrix.num_rows big_Y) (CCS_Matrix.num_cols big_Y)) \<and>
   ret (sparse_matrix_multiply big_mem big_X big_Y) = Inl NegativeArrayBound"
proof -
  have "int32 (CSR_Matrix.num_rows big_X * CCS_Matrix.num_cols big_Y) = - 2147479015"
    by (simp add: int32_def big_X_def big_Y_def)
  then show ?thesis using big_wf big_dense by (simp add: big_run)
qed

text \<open>
  C2 as amended: for well-formed \<open>X\<close> and \<open>Y\<close> with \<open>X.cols = Y.rows\<close> and with
  \<open>X.rows * Y.cols\<close> and \<open>X.rows + 1\<close> less than \<open>2^31\<close>, the dense product
  \<^verbatim>\<open>matrix_multiply\<close> of the dense forms of \<open>X\<close> and \<open>Y\<close> is the dense form of the matrix
  that \<^verbatim>\<open>sparse_matrix_multiply\<close> returns: the same rows, cell by cell.
\<close>

theorem sparse_agrees_with_dense:
  assumes "wf_CSR m X" and "wf_CCS m Y"
    and "CSR_Matrix.num_cols X = CCS_Matrix.num_rows Y"
    and "sizes_fit X Y"
  shows "\<exists>Z. ret (sparse_matrix_multiply m X Y) = Inr Z \<and>
           matrix_multiply (to_dense_CSR m X) (to_dense_CCS m Y)
               (CSR_Matrix.num_rows X) (CSR_Matrix.num_cols X)
               (CCS_Matrix.num_rows Y) (CCS_Matrix.num_cols Y)
             = Inr (to_dense_CSR (mem (sparse_matrix_multiply m X Y)) Z)"
proof -
  let ?r = "CSR_Matrix.num_rows X"
  let ?n = "CSR_Matrix.num_cols X"
  let ?c = "CCS_Matrix.num_cols Y"
  let ?A = "to_dense_CSR m X"
  let ?B = "to_dense_CCS m Y"
  obtain Z where Z: "ret (sparse_matrix_multiply m X Y) = Inr Z"
    using run_spec(1) [OF assms] by blast
  note rb = result_blocks [OF assms Z]
  have dims: "0 \<le> ?r" "0 \<le> ?n" "0 \<le> CCS_Matrix.num_rows Y" "0 \<le> ?c"
    using assms(1,2) by (simp_all add: wf_CSR_def wf_CCS_def)
  note A = to_dense_CSR_shape [OF dims(1,2), where m = m]
  note B = to_dense_CCS_shape [OF dims(3,4), where m = m]
  have "matrix_multiply ?A ?B ?r ?n ?n ?c
          = Inr (map (\<lambda>i. map (\<lambda>j. \<Sum>t \<in> {0..<?n}. ?A ! nat i ! nat t * ?B ! nat t ! nat j)
                             [0..?c - 1]) [0..?r - 1])"
    using A(1,2) B(1,2) dims(4) by (intro matrix_multiply_spec) (simp_all add: assms(3))
  also have "map (\<lambda>i. map (\<lambda>j. \<Sum>t \<in> {0..<?n}. ?A ! nat i ! nat t * ?B ! nat t ! nat j)
                            [0..?c - 1]) [0..?r - 1]
             = to_dense_CSR (mem (sparse_matrix_multiply m X Y)) Z"
    unfolding to_dense_CSR_def [of _ Z] rb(7,8)
  proof (intro map_cong refl)
    fix i j assume "i \<in> set [0..?r - 1]" "j \<in> set [0..?c - 1]"
    then have ij: "0 \<le> i" "i < ?r" "0 \<le> j" "j < ?c" by simp_all
    have "(\<Sum>t \<in> {0..<?n}. ?A ! nat i ! nat t * ?B ! nat t ! nat j)
            = (\<Sum>t \<in> {0..<?n}. dense_CSR m X i t * dense_CCS m Y t j)"
      using ij by (intro sum.cong refl) (simp add: A(3) B(3) assms(3) [symmetric])
    also have "\<dots> = computed_dot m X Y i j"
      using computed_dot_sum [OF assms(1,2) ij] by simp
    also have "\<dots> = dense_CSR (mem (sparse_matrix_multiply m X Y)) Z i j"
      using result_dense [OF assms Z ij] by simp
    finally show "(\<Sum>t \<in> {0..<?n}. ?A ! nat i ! nat t * ?B ! nat t ! nat j)
                    = dense_CSR (mem (sparse_matrix_multiply m X Y)) Z i j" .
  qed
  finally show ?thesis using Z by (simp add: assms(3) [symmetric])
qed

theorem sparse_agrees_with_dense_witness:
  "wf_CSR main_mem main_X \<and> wf_CCS main_mem main_Y \<and>
   CSR_Matrix.num_cols main_X = CCS_Matrix.num_rows main_Y \<and> sizes_fit main_X main_Y \<and>
   (\<exists>Z. ret (sparse_matrix_multiply main_mem main_X main_Y) = Inr Z \<and>
      matrix_multiply (to_dense_CSR main_mem main_X) (to_dense_CCS main_mem main_Y) 7 5 5 6
        = Inr (to_dense_CSR (mem (sparse_matrix_multiply main_mem main_X main_Y)) Z))"
proof -
  have dims: "CSR_Matrix.num_rows main_X = 7" "CSR_Matrix.num_cols main_X = 5"
    "CCS_Matrix.num_rows main_Y = 5" "CCS_Matrix.num_cols main_Y = 6"
    by (simp_all add: main_X_def main_Y_def)
  show ?thesis
    using sparse_agrees_with_dense [OF main_wf main_fit] main_wf main_fit unfolding dims
    by blast
qed

text \<open>
  C3 says that every read of the co-traversal is in bounds and that the cursor never reads
  past the end of \<^verbatim>\<open>Y->row_ind\<close>. The program does otherwise on the second example, which
  is well-formed (\<open>gap_wf\<close>): \<^verbatim>\<open>Y->row_ind\<close> has one cell, the cursor reaches the end of the column
  while the entry of \<open>X\<close> remains, and the loop condition reads \<^verbatim>\<open>Y->row_ind[1]\<close> before it
  compares the cursor with the end of the column.
\<close>

theorem cursor_reads_past_end:
  "CSR_Matrix.num_cols gap_X = CCS_Matrix.num_rows gap_Y \<and>
   length (blocks gap_mem ! row_ind gap_Y) = 1 \<and>
   faults (sparse_matrix_multiply gap_mem gap_X gap_Y) = [Bad_read (Heap (row_ind gap_Y)) 1]"
proof -
  have "length (blocks gap_mem ! row_ind gap_Y) = 1"
    by (simp add: gap_mem_def gap_Y_def)
  moreover have "faults (sparse_matrix_multiply gap_mem gap_X gap_Y)
                   = [Bad_read (Heap (row_ind gap_Y)) 1]"
    by code_simp
  ultimately show ?thesis using gap_wf(3) by blast
qed

text \<open>
  C4 says that the call returns a well-formed CRS matrix for every well-formed \<open>X\<close> and
  \<open>Y\<close> with \<open>X.cols = Y.rows\<close>. On \<open>tall\<close> the size \<open>X.rows + 1\<close> of \<^verbatim>\<open>z_row_ptr\<close> is
  negative in \<^verbatim>\<open>int\<close>, on \<open>big\<close> the size \<open>X.rows * Y.cols\<close> is: the call returns no
  matrix and allocates nothing.
\<close>

theorem result_well_formed_counterexample:
  "wf_CSR tall_mem tall_X \<and> wf_CCS tall_mem tall_Y \<and>
   CSR_Matrix.num_cols tall_X = CCS_Matrix.num_rows tall_Y \<and>
   int32 (CSR_Matrix.num_rows tall_X + 1) = - 2147483648 \<and>
   sparse_matrix_multiply tall_mem tall_X tall_Y
     = \<lparr>ret = Inl NegativeArrayBound, mem = tall_mem, faults = []\<rparr> \<and>
   wf_CSR big_mem big_X \<and> wf_CCS big_mem big_Y \<and>
   CSR_Matrix.num_cols big_X = CCS_Matrix.num_rows big_Y \<and>
   sparse_matrix_multiply big_mem big_X big_Y
     = \<lparr>ret = Inl NegativeArrayBound, mem = big_mem, faults = []\<rparr>"
proof -
  have "int32 (CSR_Matrix.num_rows tall_X + 1) = - 2147483648"
    by (simp add: int32_def tall_X_def)
  then show ?thesis using tall_wf big_wf tall_run big_run by blast
qed

text \<open>
  C4 as amended: for well-formed \<open>X\<close> and \<open>Y\<close> with \<open>X.cols = Y.rows\<close> and with
  \<open>X.rows * Y.cols\<close> and \<open>X.rows + 1\<close> less than \<open>2^31\<close>, the matrix that is returned is
  a well-formed CRS matrix: \<open>row_ptr\<close> has \<open>rows + 1\<close> cells, starts at 0, does not
  decrease and ends at the length of \<open>val\<close>, which is the length of \<open>col_ind\<close>; within
  each row the column indices increase strictly; every column index lies in
  \<open>[0, cols)\<close>.
\<close>

theorem result_well_formed:
  assumes "wf_CSR m X" and "wf_CCS m Y"
    and "CSR_Matrix.num_cols X = CCS_Matrix.num_rows Y"
    and "sizes_fit X Y"
  shows "\<exists>Z. ret (sparse_matrix_multiply m X Y) = Inr Z \<and>
           wf_CSR (mem (sparse_matrix_multiply m X Y)) Z"
proof -
  obtain Z where Z: "ret (sparse_matrix_multiply m X Y) = Inr Z"
    using run_spec(1) [OF assms] by blast
  then show ?thesis using result_wf [OF assms Z] by blast
qed

theorem result_well_formed_witness:
  "wf_CSR main_mem main_X \<and> wf_CCS main_mem main_Y \<and>
   CSR_Matrix.num_cols main_X = CCS_Matrix.num_rows main_Y \<and> sizes_fit main_X main_Y \<and>
   (\<exists>Z. ret (sparse_matrix_multiply main_mem main_X main_Y) = Inr Z \<and>
      wf_CSR (mem (sparse_matrix_multiply main_mem main_X main_Y)) Z)"
  using result_well_formed [OF main_wf main_fit] main_wf main_fit by blast

text \<open>
  C5 says that the result stores an entry for exactly the cells whose computed dot
  product is not 0, for every well-formed \<open>X\<close> and \<open>Y\<close> with \<open>X.cols = Y.rows\<close>. On \<open>big\<close>
  the dot product computed for the cell \<open>(0, 0)\<close> is 1, and the call returns no matrix and
  leaves the memory without a new block: no entry is stored.
\<close>

theorem no_explicit_zeros_counterexample:
  "wf_CSR big_mem big_X \<and> wf_CCS big_mem big_Y \<and>
   CSR_Matrix.num_cols big_X = CCS_Matrix.num_rows big_Y \<and>
   computed_dot big_mem big_X big_Y 0 0 = 1 \<and>
   ret (sparse_matrix_multiply big_mem big_X big_Y) = Inl NegativeArrayBound \<and>
   blocks (mem (sparse_matrix_multiply big_mem big_X big_Y)) = blocks big_mem"
  using big_wf big_dot by (simp add: big_run)

text \<open>
  C5 as amended: for well-formed \<open>X\<close> and \<open>Y\<close> with \<open>X.cols = Y.rows\<close> and with
  \<open>X.rows * Y.cols\<close> and \<open>X.rows + 1\<close> less than \<open>2^31\<close>, no cell of \<open>val\<close> of the result
  is 0, and the result stores an entry at \<open>(i, j)\<close> exactly when the dot product of row
  \<open>i\<close> of \<open>X\<close> and column \<open>j\<close> of \<open>Y\<close>, computed in C ints, is not 0.
\<close>

theorem no_explicit_zeros:
  assumes "wf_CSR m X" and "wf_CCS m Y"
    and "CSR_Matrix.num_cols X = CCS_Matrix.num_rows Y"
    and "sizes_fit X Y"
  shows "\<exists>Z. ret (sparse_matrix_multiply m X Y) = Inr Z \<and>
           (\<forall>v \<in> set (blocks (mem (sparse_matrix_multiply m X Y)) ! CSR_Matrix.val Z). v \<noteq> 0) \<and>
           (\<forall>i j. 0 \<le> i \<and> i < CSR_Matrix.num_rows X \<and> 0 \<le> j \<and> j < CCS_Matrix.num_cols Y \<longrightarrow>
              (stored (mem (sparse_matrix_multiply m X Y)) Z i j \<longleftrightarrow>
               (\<Sum>k \<in> {0..<CSR_Matrix.num_cols X}. dense_CSR m X i k * dense_CCS m Y k j) \<noteq> 0))"
proof -
  obtain Z where Z: "ret (sparse_matrix_multiply m X Y) = Inr Z"
    using run_spec(1) [OF assms] by blast
  note rb = result_blocks [OF assms Z]
  have nz: "v \<noteq> 0"
    if "v \<in> set (blocks (mem (sparse_matrix_multiply m X Y)) ! CSR_Matrix.val Z)" for v
    using that emitted_rows_nonzero [of _ v m X Y 0 "CSR_Matrix.num_rows X"]
    by (auto simp: rb(1))
  have st: "stored (mem (sparse_matrix_multiply m X Y)) Z i j \<longleftrightarrow>
              (\<Sum>k \<in> {0..<CSR_Matrix.num_cols X}. dense_CSR m X i k * dense_CCS m Y k j) \<noteq> 0"
    if "0 \<le> i" "i < CSR_Matrix.num_rows X" "0 \<le> j" "j < CCS_Matrix.num_cols Y" for i j
  proof -
    have "stored (mem (sparse_matrix_multiply m X Y)) Z i j
            \<longleftrightarrow> j \<in> set (map fst (emitted m X Y i 0))"
      by (simp add: stored_def result_row_entries [OF assms Z that(1,2)])
    also have "\<dots> \<longleftrightarrow> computed_dot m X Y i j \<noteq> 0"
      using that(3,4) by (simp add: fst_emitted)
    finally show ?thesis
      by (simp add: computed_dot_sum [OF assms(1,2) that])
  qed
  show ?thesis using Z nz st by blast
qed

theorem no_explicit_zeros_witness:
  "wf_CSR main_mem main_X \<and> wf_CCS main_mem main_Y \<and>
   CSR_Matrix.num_cols main_X = CCS_Matrix.num_rows main_Y \<and> sizes_fit main_X main_Y \<and>
   (\<exists>Z. ret (sparse_matrix_multiply main_mem main_X main_Y) = Inr Z \<and>
      (\<forall>v \<in> set (blocks (mem (sparse_matrix_multiply main_mem main_X main_Y)) ! CSR_Matrix.val Z).
         v \<noteq> 0) \<and>
      (stored (mem (sparse_matrix_multiply main_mem main_X main_Y)) Z 0 2 \<longleftrightarrow>
         (\<Sum>k \<in> {0..<5}. dense_CSR main_mem main_X 0 k * dense_CCS main_mem main_Y k 2) \<noteq> 0))"
proof -
  from no_explicit_zeros [OF main_wf main_fit]
  obtain Z where Z: "ret (sparse_matrix_multiply main_mem main_X main_Y) = Inr Z"
    and nz: "\<forall>v \<in> set (blocks (mem (sparse_matrix_multiply main_mem main_X main_Y))
                          ! CSR_Matrix.val Z). v \<noteq> 0"
    and st: "\<forall>i j. 0 \<le> i \<and> i < CSR_Matrix.num_rows main_X \<and> 0 \<le> j
                \<and> j < CCS_Matrix.num_cols main_Y \<longrightarrow>
              (stored (mem (sparse_matrix_multiply main_mem main_X main_Y)) Z i j \<longleftrightarrow>
               (\<Sum>k \<in> {0..<CSR_Matrix.num_cols main_X}.
                  dense_CSR main_mem main_X i k * dense_CCS main_mem main_Y k j) \<noteq> 0)"
    by blast
  have "stored (mem (sparse_matrix_multiply main_mem main_X main_Y)) Z 0 2 \<longleftrightarrow>
         (\<Sum>k \<in> {0..<5}. dense_CSR main_mem main_X 0 k * dense_CCS main_mem main_Y k 2) \<noteq> 0"
    using st [rule_format, of 0 2] by (simp add: main_X_def main_Y_def)
  then show ?thesis using main_wf main_fit Z nz by blast
qed

text \<open>
  C6: the call ends with \<open>DimensionMismatch\<close> exactly when \<open>X.cols \<noteq> Y.rows\<close>, for any
  operands and any memory; it then has read no array and has left the memory as it was,
  without a new block. The dense product ends with \<open>DimensionMismatch\<close> exactly when
  \<open>x_cols \<noteq> y_rows\<close>.
\<close>

theorem dimension_mismatch:
  "(ret (sparse_matrix_multiply m X Y) = Inl DimensionMismatch
      \<longleftrightarrow> CSR_Matrix.num_cols X \<noteq> CCS_Matrix.num_rows Y) \<and>
   (CSR_Matrix.num_cols X \<noteq> CCS_Matrix.num_rows Y \<longrightarrow>
      sparse_matrix_multiply m X Y = \<lparr>ret = Inl DimensionMismatch, mem = m, faults = []\<rparr>) \<and>
   (matrix_multiply A B x_rows x_cols y_rows y_cols = Inl DimensionMismatch
      \<longleftrightarrow> x_cols \<noteq> y_rows)"
proof (intro conjI)
  show "ret (sparse_matrix_multiply m X Y) = Inl DimensionMismatch
          \<longleftrightarrow> CSR_Matrix.num_cols X \<noteq> CCS_Matrix.num_rows Y"
    by (auto simp: sparse_matrix_multiply_def split: prod.splits sum.splits
             dest: init_CSR_matrix_error multiply_scratch_error)
  show "CSR_Matrix.num_cols X \<noteq> CCS_Matrix.num_rows Y \<longrightarrow>
          sparse_matrix_multiply m X Y = \<lparr>ret = Inl DimensionMismatch, mem = m, faults = []\<rparr>"
    by (simp add: sparse_matrix_multiply_def)
  show "matrix_multiply A B x_rows x_cols y_rows y_cols = Inl DimensionMismatch
          \<longleftrightarrow> x_cols \<noteq> y_rows"
    by (auto simp: matrix_multiply_def init_2d_array_def split: if_splits sum.splits
             dest: dense_rows_loop_error)
qed

theorem dimension_mismatch_witness:
  "CSR_Matrix.num_cols gap_X \<noteq> CCS_Matrix.num_rows main_Y \<and>
   sparse_matrix_multiply main_mem gap_X main_Y
     = \<lparr>ret = Inl DimensionMismatch, mem = main_mem, faults = []\<rparr> \<and>
   matrix_multiply [[1, 2]] [[3]] 1 2 1 1 = Inl DimensionMismatch"
proof -
  have ne: "CSR_Matrix.num_cols gap_X \<noteq> CCS_Matrix.num_rows main_Y"
    by (simp add: gap_X_def main_Y_def)
  have "((2::int) \<noteq> 1)" by simp
  with dimension_mismatch [of main_mem gap_X main_Y "[[1, 2]]" "[[3]]" 1 2 1 1] ne
  show ?thesis by blast
qed

text \<open>
  C7 says that every write into the scratch arrays is inside them, for every well-formed
  \<open>X\<close> and \<open>Y\<close> with \<open>X.cols = Y.rows\<close>. On \<open>wide\<close> the product \<open>X.rows * Y.cols\<close> is
  \<open>2^32\<close>, which is 0 in \<^verbatim>\<open>int\<close>: the scratch arrays have no cell, and the entry for
  the cell \<open>(0, 0)\<close> is written to \<^verbatim>\<open>z_val[0]\<close> and \<^verbatim>\<open>z_col_ind[0]\<close>, outside them.
\<close>

theorem scratch_writes_in_bounds_counterexample:
  "wf_CSR wide_mem wide_X \<and> wf_CCS wide_mem wide_Y \<and>
   CSR_Matrix.num_cols wide_X = CCS_Matrix.num_rows wide_Y \<and>
   CSR_Matrix.num_rows wide_X * CCS_Matrix.num_cols wide_Y = 4294967296 \<and>
   int32 (CSR_Matrix.num_rows wide_X * CCS_Matrix.num_cols wide_Y) = 0 \<and>
   faults (sparse_matrix_multiply wide_mem wide_X wide_Y) ! 0 = Bad_write Z_val 0 \<and>
   faults (sparse_matrix_multiply wide_mem wide_X wide_Y) ! 1 = Bad_write Z_col_ind 0"
proof -
  obtain fs where "faults (sparse_matrix_multiply wide_mem wide_X wide_Y)
      = Bad_write Z_val 0 # Bad_write Z_col_ind 0 # fs"
    using wide_run by blast
  moreover have "CSR_Matrix.num_rows wide_X * CCS_Matrix.num_cols wide_Y = 4294967296"
    by (simp add: wide_X_def wide_Y_def)
  ultimately show ?thesis using wide_wf wide_sizes by simp
qed

text \<open>
  C7 as amended: for well-formed \<open>X\<close> and \<open>Y\<close> with \<open>X.cols = Y.rows\<close> and with
  \<open>X.rows * Y.cols\<close> and \<open>X.rows + 1\<close> less than \<open>2^31\<close>, the loops emit at most
  \<open>X.rows * Y.cols\<close> entries, the size of the two scratch arrays, and no write of the
  call falls outside an array; the arrays \<open>val\<close> and \<open>col_ind\<close> of the result have
  exactly as many cells as entries were emitted and hold the first that many cells of
  the scratch arrays.
\<close>

theorem scratch_writes_in_bounds:
  assumes "wf_CSR m X" and "wf_CCS m Y"
    and "CSR_Matrix.num_cols X = CCS_Matrix.num_rows Y"
    and "sizes_fit X Y"
  shows "\<exists>s fs Z. multiply_scratch m X Y = Inr (s, fs) \<and>
           ret (sparse_matrix_multiply m X Y) = Inr Z \<and>
           0 \<le> z_val_count s \<and>
           z_val_count s \<le> CSR_Matrix.num_rows X * CCS_Matrix.num_cols Y \<and>
           int (length (z_val s)) = CSR_Matrix.num_rows X * CCS_Matrix.num_cols Y \<and>
           int (length (z_col_ind s)) = CSR_Matrix.num_rows X * CCS_Matrix.num_cols Y \<and>
           (\<forall>f \<in> set fs. \<not> is_write f) \<and>
           (\<forall>f \<in> set (faults (sparse_matrix_multiply m X Y)). \<not> is_write f) \<and>
           int (length (blocks (mem (sparse_matrix_multiply m X Y)) ! CSR_Matrix.val Z))
             = z_val_count s \<and>
           int (length (blocks (mem (sparse_matrix_multiply m X Y)) ! col_ind Z))
             = z_val_count s \<and>
           blocks (mem (sparse_matrix_multiply m X Y)) ! CSR_Matrix.val Z
             = take (nat (z_val_count s)) (z_val s) \<and>
           blocks (mem (sparse_matrix_multiply m X Y)) ! col_ind Z
             = take (nat (z_val_count s)) (z_col_ind s)"
proof -
  obtain s fs where ms: "multiply_scratch m X Y = Inr (s, fs)"
    using multiply_scratch_returns [OF assms(1,2,4)] by blast
  obtain Z where Z: "ret (sparse_matrix_multiply m X Y) = Inr Z"
    using run_spec(1) [OF assms] by blast
  note sc = multiply_scratch_spec [OF assms(1,2,4) ms]
  note rb = result_blocks [OF assms Z]
  have c0: "0 \<le> z_val_count s" by (simp add: sc(1))
  have "length (take (nat (z_val_count s)) (z_val s))
          = length (emitted_rows m X Y 0 (CSR_Matrix.num_rows X))"
    unfolding sc(5) by simp
  then have le: "z_val_count s \<le> CSR_Matrix.num_rows X * CCS_Matrix.num_cols Y"
    using sc(1,2) by simp
  have w1: "\<forall>f \<in> set fs. \<not> is_write f"
    using sc(8) by (rule past_row_ind_not_write)
  have w2: "\<forall>f \<in> set (faults (sparse_matrix_multiply m X Y)). \<not> is_write f"
    using run_spec(4) [OF assms] by (rule past_row_ind_not_write)
  have v: "blocks (mem (sparse_matrix_multiply m X Y)) ! CSR_Matrix.val Z
             = take (nat (z_val_count s)) (z_val s)"
    and c: "blocks (mem (sparse_matrix_multiply m X Y)) ! col_ind Z
             = take (nat (z_val_count s)) (z_col_ind s)"
    by (simp_all add: rb(1,2) sc(5,6))
  have lv: "int (length (blocks (mem (sparse_matrix_multiply m X Y)) ! CSR_Matrix.val Z))
              = z_val_count s"
    and lc: "int (length (blocks (mem (sparse_matrix_multiply m X Y)) ! col_ind Z))
              = z_val_count s"
    by (simp_all add: rb(1,2) sc(1))
  show ?thesis
    using ms Z c0 le sc(2,3) w1 w2 lv lc v c by blast
qed

theorem scratch_writes_in_bounds_witness:
  "wf_CSR main_mem main_X \<and> wf_CCS main_mem main_Y \<and>
   CSR_Matrix.num_cols main_X = CCS_Matrix.num_rows main_Y \<and> sizes_fit main_X main_Y \<and>
   (\<exists>s fs Z. multiply_scratch main_mem main_X main_Y = Inr (s, fs) \<and>
      ret (sparse_matrix_multiply main_mem main_X main_Y) = Inr Z \<and>
      0 \<le> z_val_count s \<and> z_val_count s \<le> 42 \<and>
      int (length (z_val s)) = 42 \<and> int (length (z_col_ind s)) = 42 \<and>
      (\<forall>f \<in> set (faults (sparse_matrix_multiply main_mem main_X main_Y)). \<not> is_write f) \<and>
      blocks (mem (sparse_matrix_multiply main_mem main_X main_Y)) ! CSR_Matrix.val Z
        = take (nat (z_val_count s)) (z_val s) \<and>
      blocks (mem (sparse_matrix_multiply main_mem main_X main_Y)) ! col_ind Z
        = take (nat (z_val_count s)) (z_col_ind s))"
proof -
  have dims: "CSR_Matrix.num_rows main_X * CCS_Matrix.num_cols main_Y = 42"
    by (simp add: main_X_def main_Y_def)
  show ?thesis
    using scratch_writes_in_bounds [OF main_wf main_fit] main_wf main_fit unfolding dims
    by blast
qed

text \<open>
  C8 expects row 0 of the product of the example of \<^verbatim>\<open>main\<close> to be
  \<open>[6, 0, 0, 8, 0, 0]\<close>. The program returns 20 in column 2: row 0 of \<open>X\<close> has 4 in
  column 3, column 2 of \<open>Y\<close> has 5 in row 3.
\<close>

theorem expected_row_0_counterexample:
  "dense_result main_mem main_X main_Y ! 0 \<noteq> [6, 0, 0, 8, 0, 0]"
  by code_simp

text \<open>C8 as amended: row 0 of the dense form of the product is \<open>[6, 0, 20, 8, 0, 0]\<close>.\<close>

theorem main_row_0:
  "dense_result main_mem main_X main_Y ! 0 = [6, 0, 20, 8, 0, 0]"
  by code_simp

text \<open>
  C9 says that the call has no effect other than producing the freshly allocated result,
  for every well-formed \<open>X\<close> and \<open>Y\<close> with \<open>X.cols = Y.rows\<close>. On \<open>wide\<close> the call writes
  outside its scratch arrays, which have no cell; on \<open>big\<close> it produces no result.
\<close>

theorem operands_unchanged_counterexample:
  "wf_CSR wide_mem wide_X \<and> wf_CCS wide_mem wide_Y \<and>
   CSR_Matrix.num_cols wide_X = CCS_Matrix.num_rows wide_Y \<and>
   is_write (faults (sparse_matrix_multiply wide_mem wide_X wide_Y) ! 0) \<and>
   is_write (faults (sparse_matrix_multiply wide_mem wide_X wide_Y) ! 1) \<and>
   wf_CSR big_mem big_X \<and> wf_CCS big_mem big_Y \<and>
   CSR_Matrix.num_cols big_X = CCS_Matrix.num_rows big_Y \<and>
   ret (sparse_matrix_multiply big_mem big_X big_Y) = Inl NegativeArrayBound \<and>
   length (blocks (mem (sparse_matrix_multiply big_mem big_X big_Y))) = length (blocks big_mem)"
proof -
  obtain fs where "faults (sparse_matrix_multiply wide_mem wide_X wide_Y)
      = Bad_write Z_val 0 # Bad_write Z_col_ind 0 # fs"
    using wide_run by blast
  then show ?thesis using wide_wf big_wf by (simp add: big_run)
qed

text \<open>
  C9 as amended: for well-formed \<open>X\<close> and \<open>Y\<close> with \<open>X.cols = Y.rows\<close> and with
  \<open>X.rows * Y.cols\<close> and \<open>X.rows + 1\<close> less than \<open>2^31\<close>, the call leaves every block of
  the memory it was given as it was, so the six arrays of \<open>X\<close> and \<open>Y\<close> in particular,
  and it writes outside no array; what it adds are three new blocks, the arrays of the
  matrix it returns.
\<close>

theorem operands_unchanged:
  assumes "wf_CSR m X" and "wf_CCS m Y"
    and "CSR_Matrix.num_cols X = CCS_Matrix.num_rows Y"
    and "sizes_fit X Y"
  shows "(\<forall>p < length (blocks m). blocks (mem (sparse_matrix_multiply m X Y)) ! p = blocks m ! p) \<and>
         blocks (mem (sparse_matrix_multiply m X Y)) ! CSR_Matrix.val X = blocks m ! CSR_Matrix.val X \<and>
         blocks (mem (sparse_matrix_multiply m X Y)) ! col_ind X = blocks m ! col_ind X \<and>
         blocks (mem (sparse_matrix_multiply m X Y)) ! row_ptr X = blocks m ! row_ptr X \<and>
         blocks (mem (sparse_matrix_multiply m X Y)) ! CCS_Matrix.val Y = blocks m ! CCS_Matrix.val Y \<and>
         blocks (mem (sparse_matrix_multiply m X Y)) ! row_ind Y = blocks m ! row_ind Y \<and>
         blocks (mem (sparse_matrix_multiply m X Y)) ! col_ptr Y = blocks m ! col_ptr Y \<and>
         stray (mem (sparse_matrix_multiply m X Y)) = stray m \<and>
         (\<forall>f \<in> set (faults (sparse_matrix_multiply m X Y)). \<not> is_write f) \<and>
         length (blocks (mem (sparse_matrix_multiply m X Y))) = length (blocks m) + 3 \<and>
         (\<exists>Z. ret (sparse_matrix_multiply m X Y) = Inr Z \<and>
            CSR_Matrix.val Z = length (blocks m) \<and> col_ind Z = length (blocks m) + 1 \<and>
            row_ptr Z = length (blocks m) + 2)"
proof -
  obtain Z where Z: "ret (sparse_matrix_multiply m X Y) = Inr Z"
    using run_spec(1) [OF assms] by blast
  note rb = result_blocks [OF assms Z]
  note rs = run_spec [OF assms]
  have old: "blocks (mem (sparse_matrix_multiply m X Y)) ! p = blocks m ! p"
    if "p < length (blocks m)" for p
    using that unfolding rs(2) by (simp add: nth_append)
  have ptrs: "CSR_Matrix.val X < length (blocks m)" "col_ind X < length (blocks m)"
    "row_ptr X < length (blocks m)" "CCS_Matrix.val Y < length (blocks m)"
    "row_ind Y < length (blocks m)" "col_ptr Y < length (blocks m)"
    using assms(1,2) by (simp_all add: wf_CSR_def wf_CCS_def)
  have w: "\<forall>f \<in> set (faults (sparse_matrix_multiply m X Y)). \<not> is_write f"
    using rs(4) by (rule past_row_ind_not_write)
  have new: "CSR_Matrix.val Z = length (blocks m)" "col_ind Z = length (blocks m) + 1"
    "row_ptr Z = length (blocks m) + 2"
    by (simp_all add: rb(4,5,6))
  show ?thesis
    using old ptrs [THEN old] rs(3) w rb(9) Z new by blast
qed

theorem operands_unchanged_witness:
  "wf_CSR main_mem main_X \<and> wf_CCS main_mem main_Y \<and>
   CSR_Matrix.num_cols main_X = CCS_Matrix.num_rows main_Y \<and> sizes_fit main_X main_Y \<and>
   blocks (mem (sparse_matrix_multiply main_mem main_X main_Y)) ! 0 = [2, 4, 3, 1, 6, 2] \<and>
   blocks (mem (sparse_matrix_multiply main_mem main_X main_Y)) ! 4 = [0, 4, 1, 1, 3, 0, 1, 2, 4] \<and>
   length (blocks (mem (sparse_matrix_multiply main_mem main_X main_Y))) = 9 \<and>
   (\<exists>Z. ret (sparse_matrix_multiply main_mem main_X main_Y) = Inr Z \<and>
      CSR_Matrix.val Z = 6 \<and> col_ind Z = 7 \<and> row_ptr Z = 8)"
proof -
  have len: "length (blocks main_mem) = 6" by (simp add: main_mem_def)
  have b: "blocks main_mem ! 0 = [2, 4, 3, 1, 6, 2]"
    "blocks main_mem ! 4 = [0, 4, 1, 1, 3, 0, 1, 2, 4]"
    by (simp_all add: main_mem_def)
  from operands_unchanged [OF main_wf main_fit]
  have old: "\<forall>p < length (blocks main_mem).
          blocks (mem (sparse_matrix_multiply main_mem main_X main_Y)) ! p = blocks main_mem ! p"
    and n: "length (blocks (mem (sparse_matrix_multiply main_mem main_X main_Y)))
              = length (blocks main_mem) + 3"
    and z: "\<exists>Z. ret (sparse_matrix_multiply main_mem main_X main_Y) = Inr Z \<and>
            CSR_Matrix.val Z = length (blocks main_mem) \<and> col_ind Z = length (blocks main_mem) + 1 \<and>
            row_ptr Z = length (blocks main_mem) + 2"
    by blast+
  have "blocks (mem (sparse_matrix_multiply main_mem main_X main_Y)) ! 0 = [2, 4, 3, 1, 6, 2]"
    "blocks (mem (sparse_matrix_multiply main_mem main_X main_Y)) ! 4
       = [0, 4, 1, 1, 3, 0, 1, 2, 4]"
    using old [rule_format, of 0] old [rule_format, of 4] by (simp_all add: len b)
  then show ?thesis using main_wf main_fit n z by (simp add: len)
qed

text \<open>
  C10 says that the call is a total function on the well-formed operands with
  \<open>X.cols = Y.rows\<close>. On \<open>big\<close> and on \<open>tall\<close> the call ends at the declaration of a
  scratch array with a negative size and returns no matrix.
\<close>

theorem multiply_terminates_counterexample:
  "wf_CSR big_mem big_X \<and> wf_CCS big_mem big_Y \<and>
   CSR_Matrix.num_cols big_X = CCS_Matrix.num_rows big_Y \<and>
   ret (sparse_matrix_multiply big_mem big_X big_Y) = Inl NegativeArrayBound \<and>
   wf_CSR tall_mem tall_X \<and> wf_CCS tall_mem tall_Y \<and>
   CSR_Matrix.num_cols tall_X = CCS_Matrix.num_rows tall_Y \<and>
   ret (sparse_matrix_multiply tall_mem tall_X tall_Y) = Inl NegativeArrayBound"
  using big_wf tall_wf by (simp add: big_run tall_run)

text \<open>
  C10 as amended: on well-formed operands with \<open>X.cols = Y.rows\<close>, the call returns a
  matrix when \<open>X.rows * Y.cols\<close> and \<open>X.rows + 1\<close> are less than \<open>2^31\<close>. The cursor
  loop, started inside a column of \<open>Y\<close>, stops at the end of that column at the latest.
  An iteration of it, which happens when the loop condition holds, moves the cursor one
  cell up, so the cursor increases strictly and its distance from the end of the column
  decreases; when the condition does not hold the cursor stays. Each of the six loops of
  the call ends from every state: their measures are that distance and the distance of
  the loop counter from its bound.
\<close>

theorem multiply_terminates:
  assumes "wf_CSR m X" and "wf_CCS m Y"
    and "CSR_Matrix.num_cols X = CCS_Matrix.num_rows Y"
  shows "(sizes_fit X Y \<longrightarrow> (\<exists>Z. ret (sparse_matrix_multiply m X Y) = Inr Z)) \<and>
         (\<forall>j x y. 0 \<le> j \<and> j < CCS_Matrix.num_cols Y \<and>
                  0 \<le> y \<and> y \<le> blocks m ! col_ptr Y ! nat (j + 1) \<longrightarrow>
            y \<le> fst (advance m X Y j x y) \<and>
            fst (advance m X Y j x y) \<le> blocks m ! col_ptr Y ! nat (j + 1) \<and>
            blocks m ! col_ptr Y ! nat (j + 1) \<le> int (length (blocks m ! row_ind Y))) \<and>
         (\<forall>j x y. fst (rd m (row_ind Y) y) < fst (rd m (col_ind X) x) \<and>
                  y < fst (rd m (col_ptr Y) (j + 1)) \<longrightarrow>
            fst (advance m X Y j x y) = fst (advance m X Y j x (y + 1)) \<and>
            y < fst (advance m X Y j x y) \<and>
            nat (fst (rd m (col_ptr Y) (j + 1)) - (y + 1))
              < nat (fst (rd m (col_ptr Y) (j + 1)) - y)) \<and>
         (\<forall>j x y. \<not> (fst (rd m (row_ind Y) y) < fst (rd m (col_ind X) x) \<and>
                     y < fst (rd m (col_ptr Y) (j + 1))) \<longrightarrow>
            fst (advance m X Y j x y) = y) \<and>
         advance_dom (m, X, Y, cur_z_col, x_col, y_row) \<and>
         dot_loop_dom (m, X, Y, cur_z_row, cur_z_col, x_col, y_row, dot_product) \<and>
         cols_loop_dom (m, X, Y, z_cols, cur_z_row, cur_z_col, s, cur_row_val_count) \<and>
         rows_loop_dom (m, X, Y, z_rows, z_cols, cur_z_row, s) \<and>
         fill_val_dom (m', Z', s, i) \<and>
         fill_row_ptr_dom (m', Z', s, z_rows, i)"
proof -
  have ret: "sizes_fit X Y \<longrightarrow> (\<exists>Z. ret (sparse_matrix_multiply m X Y) = Inr Z)"
    using run_spec(1) [OF assms] by blast
  have cursor: "y \<le> fst (advance m X Y j x y) \<and>
                fst (advance m X Y j x y) \<le> blocks m ! col_ptr Y ! nat (j + 1) \<and>
                blocks m ! col_ptr Y ! nat (j + 1) \<le> int (length (blocks m ! row_ind Y))"
    if "0 \<le> j" "j < CCS_Matrix.num_cols Y" "0 \<le> y" "y \<le> blocks m ! col_ptr Y ! nat (j + 1)"
    for j x y
  proof -
    have e: "rd m (col_ptr Y) (j + 1) = (blocks m ! col_ptr Y ! nat (j + 1), [])"
      and e_le: "blocks m ! col_ptr Y ! nat (j + 1) \<le> int (length (blocks m ! row_ind Y))"
      using wf_CCS_col_ptr [OF assms(2), of "j + 1"] that(1,2) by simp_all
    have "row_ind Y < length (blocks m)"
      and "length (blocks m ! row_ind Y) = length (blocks m ! CCS_Matrix.val Y)"
      using assms(2) by (simp_all add: wf_CCS_def)
    from advance_slice [OF this that(3), of j X x] that(4) e_le
    show ?thesis by (simp add: e)
  qed
  have step: "fst (advance m X Y j x y) = fst (advance m X Y j x (y + 1)) \<and>
              y < fst (advance m X Y j x y) \<and>
              nat (fst (rd m (col_ptr Y) (j + 1)) - (y + 1))
                < nat (fst (rd m (col_ptr Y) (j + 1)) - y)"
    if "fst (rd m (row_ind Y) y) < fst (rd m (col_ind X) x) \<and>
        y < fst (rd m (col_ptr Y) (j + 1))" for j x y
  proof -
    have a: "fst (advance m X Y j x y) = fst (advance m X Y j x (y + 1))"
      using that by (subst advance_fst) simp
    have "y + 1 \<le> fst (advance m X Y j x (y + 1))" by (rule advance_ge)
    then show ?thesis using a that by simp
  qed
  have stop: "fst (advance m X Y j x y) = y"
    if "\<not> (fst (rd m (row_ind Y) y) < fst (rd m (col_ind X) x) \<and>
           y < fst (rd m (col_ptr Y) (j + 1)))" for j x y
    using that by (subst advance_fst) auto
  show ?thesis
    using ret cursor step stop advance_total dot_loop_total cols_loop_total rows_loop_total
      fill_val_total fill_row_ptr_total
    by blast
qed

theorem multiply_terminates_witness:
  "wf_CSR main_mem main_X \<and> wf_CCS main_mem main_Y \<and>
   CSR_Matrix.num_cols main_X = CCS_Matrix.num_rows main_Y \<and> sizes_fit main_X main_Y \<and>
   (\<exists>Z. ret (sparse_matrix_multiply main_mem main_X main_Y) = Inr Z) \<and>
   fst (rd main_mem (row_ind main_Y) 2) < fst (rd main_mem (col_ind main_X) 5) \<and>
   2 < fst (rd main_mem (col_ptr main_Y) (1 + 1)) \<and>
   2 < fst (advance main_mem main_X main_Y 1 5 2) \<and>
   fst (advance main_mem main_X main_Y 1 5 2) \<le> 3 \<and>
   rows_loop_dom (main_mem, main_X, main_Y, 7, 6, 0,
     \<lparr>z_val = [], z_col_ind = [], z_row_ptr = [0], z_val_count = 0\<rparr>)"
proof -
  have e: "blocks main_mem ! col_ptr main_Y ! 2 = 3"
    by (simp add: main_mem_def main_Y_def)
  have j: "(1::int) < CCS_Matrix.num_cols main_Y" by (simp add: main_Y_def)
  have cond: "fst (rd main_mem (row_ind main_Y) 2) < fst (rd main_mem (col_ind main_X) 5) \<and>
              2 < fst (rd main_mem (col_ptr main_Y) (1 + 1))"
    by (simp add: rd_def main_mem_def main_X_def main_Y_def)
  from multiply_terminates [OF main_wf, where z_rows = 7 and z_cols = 6 and cur_z_row = 0
      and s = "\<lparr>z_val = [], z_col_ind = [], z_row_ptr = [0], z_val_count = 0\<rparr>"]
  have r: "sizes_fit main_X main_Y
             \<longrightarrow> (\<exists>Z. ret (sparse_matrix_multiply main_mem main_X main_Y) = Inr Z)"
    and c: "\<forall>j x y. 0 \<le> j \<and> j < CCS_Matrix.num_cols main_Y \<and>
                  0 \<le> y \<and> y \<le> blocks main_mem ! col_ptr main_Y ! nat (j + 1) \<longrightarrow>
            y \<le> fst (advance main_mem main_X main_Y j x y) \<and>
            fst (advance main_mem main_X main_Y j x y)
              \<le> blocks main_mem ! col_ptr main_Y ! nat (j + 1) \<and>
            blocks main_mem ! col_ptr main_Y ! nat (j + 1)
              \<le> int (length (blocks main_mem ! row_ind main_Y))"
    and p: "\<forall>j x y. fst (rd main_mem (row_ind main_Y) y) < fst (rd main_mem (col_ind main_X) x) \<and>
                  y < fst (rd main_mem (col_ptr main_Y) (j + 1)) \<longrightarrow>
            fst (advance main_mem main_X main_Y j x y)
              = fst (advance main_mem main_X main_Y j x (y + 1)) \<and>
            y < fst (advance main_mem main_X main_Y j x y) \<and>
            nat (fst (rd main_mem (col_ptr main_Y) (j + 1)) - (y + 1))
              < nat (fst (rd main_mem (col_ptr main_Y) (j + 1)) - y)"
    and d: "rows_loop_dom (main_mem, main_X, main_Y, 7, 6, 0,
              \<lparr>z_val = [], z_col_ind = [], z_row_ptr = [0], z_val_count = 0\<rparr>)"
    by blast+
  have le: "fst (advance main_mem main_X main_Y 1 5 2) \<le> 3"
    using c [rule_format, of 1 2 5] j by (simp add: e)
  have lt: "2 < fst (advance main_mem main_X main_Y 1 5 2)"
    using p [rule_format, OF cond] by blast
  show ?thesis using main_wf(1,2,3) main_fit r [rule_format, OF main_fit] cond le lt d by blast
qed

end
